theory Spec2Isabelle
  imports Complex_Main "HOL-Library.Finite_Map" "HOL-Library.AList"
    "HOL-Library.List_Lexorder" "HOL-Library.Char_ord"
begin

section \<open>The optimizer of \<^verbatim>\<open>src/optimize.py\<close>\<close>

text \<open>
  Python values are modelled as follows. A \<^verbatim>\<open>float\<close> is a \<^typ>\<open>real\<close>;
  \<^verbatim>\<open>nan\<close> and the infinities are outside the model, and the literal \<^verbatim>\<open>0.1\<close> is
  the rational \<open>1/10\<close>. Where a property depends on the rounding of float arithmetic,
  the operations are modelled a second time with the rounding as a parameter. An
  \<^verbatim>\<open>int\<close> is an \<^typ>\<open>int\<close>. A raised exception is the \<open>Inl\<close> branch of a sum.
\<close>

datatype error =
    KeyError
  | IndexError
  | TypeError
  | ValueError
  | ZeroDivisionError
  | AttributeError
  | RecursionError
subsection \<open>\<^verbatim>\<open>Evaluator.calc_fitness\<close>\<close>

text \<open>
  The statistics record \<^verbatim>\<open>analysis\<close> is a dictionary from names to floats. Of
  \<^verbatim>\<open>self.config\<close> the function reads \<^verbatim>\<open>["optimize"]["limits"]\<close> and
  \<^verbatim>\<open>["optimize"]["scoring"]\<close>.
\<close>

type_synonym analysis = "string \<rightharpoonup> real"

record optimize_config =
  limits :: "string \<rightharpoonup> real"
  scoring :: "string list"

text \<open>
  One summand of the loop body, without its weight:
  \<^verbatim>\<open>max(limits[f"lower_bound_{key}"], analysis[key]) - limits[f"lower_bound_{key}"]\<close>.
  A missing key raises.
\<close>

definition violation :: "optimize_config \<Rightarrow> analysis \<Rightarrow> string \<Rightarrow> error + real" where
  "violation cfg a key =
     (case limits cfg (''lower_bound_'' @ key) of
        None \<Rightarrow> Inl KeyError
      | Some lb \<Rightarrow>
          (case a key of
             None \<Rightarrow> Inl KeyError
           | Some x \<Rightarrow> Inr (max lb x - lb)))"

text \<open>The \<^verbatim>\<open>for i, key in [...]\<close> loop, \<^verbatim>\<open>modifier += (...) * 10**i\<close>.\<close>

fun modifier_loop ::
  "optimize_config \<Rightarrow> analysis \<Rightarrow> (nat \<times> string) list \<Rightarrow> real \<Rightarrow> error + real" where
  "modifier_loop cfg a [] modifier = Inr modifier"
| "modifier_loop cfg a ((i, key) # rest) modifier =
     (case violation cfg a key of
        Inl e \<Rightarrow> Inl e
      | Inr v \<Rightarrow> modifier_loop cfg a rest (modifier + v * 10 ^ i))"

definition constrained :: "(nat \<times> string) list" where
  "constrained =
     [(4, ''drawdown_worst''), (3, ''equity_balance_diff_mean''), (2, ''loss_profit_ratio'')]"

definition calc_modifier :: "optimize_config \<Rightarrow> analysis \<Rightarrow> error + real" where
  "calc_modifier cfg a = modifier_loop cfg a constrained 0"

text \<open>\<^verbatim>\<open>self.config["optimize"]["scoring"][j]\<close> followed by \<^verbatim>\<open>analysis[...]\<close>.\<close>

definition objective :: "optimize_config \<Rightarrow> analysis \<Rightarrow> nat \<Rightarrow> error + real" where
  "objective cfg a j =
     (if j < length (scoring cfg)
      then (case a (scoring cfg ! j) of None \<Rightarrow> Inl KeyError | Some v \<Rightarrow> Inr v)
      else Inl IndexError)"

text \<open>
  The \<^verbatim>\<open>or\<close> of the disqualification test short-circuits: the maximum divergence is
  read only when the worst drawdown is below \<open>1.0\<close>.
\<close>

definition calc_fitness :: "optimize_config \<Rightarrow> analysis \<Rightarrow> error + real \<times> real" where
  "calc_fitness cfg a =
     (case calc_modifier cfg a of
        Inl e \<Rightarrow> Inl e
      | Inr modifier \<Rightarrow>
          (case a ''drawdown_worst'' of
             None \<Rightarrow> Inl KeyError
           | Some dd \<Rightarrow>
               if dd \<ge> 1 then Inr (modifier, modifier)
               else
                 (case a ''equity_balance_diff_max'' of
                    None \<Rightarrow> Inl KeyError
                  | Some ebd \<Rightarrow>
                      if ebd < 1 / 10 then Inr (modifier, modifier)
                      else
                        (case objective cfg a 0 of
                           Inl e \<Rightarrow> Inl e
                         | Inr v0 \<Rightarrow>
                             (case objective cfg a 1 of
                                Inl e \<Rightarrow> Inl e
                              | Inr v1 \<Rightarrow> Inr (modifier - v0, modifier - v1))))))"

text \<open>Sample inputs: a configuration with two scoring metrics and a statistics record.\<close>

definition limits0 :: "string \<rightharpoonup> real" where
  "limits0 =
     [''lower_bound_drawdown_worst'' \<mapsto> 1 / 4,
      ''lower_bound_equity_balance_diff_mean'' \<mapsto> 1 / 8,
      ''lower_bound_loss_profit_ratio'' \<mapsto> 1 / 2]"

definition config0 :: optimize_config where
  "config0 = \<lparr>limits = limits0, scoring = [''adg'', ''sharpe_ratio'']\<rparr>"

definition stats :: "real \<Rightarrow> real \<Rightarrow> real \<Rightarrow> real \<Rightarrow> real \<Rightarrow> real \<Rightarrow> analysis" where
  "stats dd ebd_mean lpr ebd_max adg sharpe =
     [''drawdown_worst'' \<mapsto> dd,
      ''equity_balance_diff_mean'' \<mapsto> ebd_mean,
      ''loss_profit_ratio'' \<mapsto> lpr,
      ''equity_balance_diff_max'' \<mapsto> ebd_max,
      ''adg'' \<mapsto> adg,
      ''sharpe_ratio'' \<mapsto> sharpe]"

subsection \<open>The modifier with the rounding of each operation\<close>

text \<open>
  The modifier loop of \<^verbatim>\<open>calc_fitness\<close> once more, now with the rounding of Python's
  float arithmetic written out: every subtraction, multiplication and addition of the
  source returns the exact result rounded to a double. The rounding function \<open>rnd\<close> is a
  parameter; of IEEE round-to-nearest the theorems below use only that it is monotone,
  that it maps \<open>0\<close> to \<open>0\<close>, and that a rounded value is representable
  (\<open>rnd (rnd x) = rnd x\<close>). Overflow is outside the model. With the identity for \<open>rnd\<close>
  these are the definitions above.
\<close>

definition violation_fl ::
  "(real \<Rightarrow> real) \<Rightarrow> optimize_config \<Rightarrow> analysis \<Rightarrow> string \<Rightarrow> error + real" where
  "violation_fl rnd cfg a key =
     (case limits cfg (''lower_bound_'' @ key) of
        None \<Rightarrow> Inl KeyError
      | Some lb \<Rightarrow>
          (case a key of
             None \<Rightarrow> Inl KeyError
           | Some x \<Rightarrow> Inr (rnd (max lb x - lb))))"

fun modifier_loop_fl ::
  "(real \<Rightarrow> real) \<Rightarrow> optimize_config \<Rightarrow> analysis \<Rightarrow> (nat \<times> string) list \<Rightarrow> real \<Rightarrow>
     error + real" where
  "modifier_loop_fl rnd cfg a [] modifier = Inr modifier"
| "modifier_loop_fl rnd cfg a ((i, key) # rest) modifier =
     (case violation_fl rnd cfg a key of
        Inl e \<Rightarrow> Inl e
      | Inr v \<Rightarrow> modifier_loop_fl rnd cfg a rest (rnd (modifier + rnd (v * 10 ^ i))))"

definition calc_modifier_fl ::
  "(real \<Rightarrow> real) \<Rightarrow> optimize_config \<Rightarrow> analysis \<Rightarrow> error + real" where
  "calc_modifier_fl rnd cfg a = modifier_loop_fl rnd cfg a constrained 0"

text \<open>
  The weighted summand of one constrained statistic as the loop computes it,
  \<^verbatim>\<open>(max(lower_bound, actual) - lower_bound) * 10**i\<close>.
\<close>

definition weighted_fl ::
  "(real \<Rightarrow> real) \<Rightarrow> optimize_config \<Rightarrow> analysis \<Rightarrow> nat \<Rightarrow> string \<Rightarrow> error + real" where
  "weighted_fl rnd cfg a i key =
     (case violation_fl rnd cfg a key of
        Inl e \<Rightarrow> Inl e
      | Inr v \<Rightarrow> Inr (rnd (v * 10 ^ i)))"

subsection \<open>The generation budget of \<^verbatim>\<open>main\<close>\<close>

text \<open>\<^verbatim>\<open>int(x)\<close> on a float truncates towards zero.\<close>

definition py_int :: "real \<Rightarrow> int" where
  "py_int x = (if 0 \<le> x then \<lfloor>x\<rfloor> else \<lceil>x\<rceil>)"

text \<open>
  The argument \<^verbatim>\<open>ngen=max(1, int(config["optimize"]["iters"] / len(population)))\<close>
  of the call of \<^verbatim>\<open>algorithms.eaMuPlusLambda\<close>; \<open>n\<close> is \<^verbatim>\<open>len(population)\<close>. The
  division is Python's true division of two integers: it raises on a zero divisor and
  otherwise returns the exact quotient rounded to a double. The rounding \<open>rnd\<close> is a
  parameter.
\<close>

definition ngen :: "(real \<Rightarrow> real) \<Rightarrow> int \<Rightarrow> nat \<Rightarrow> error + int" where
  "ngen rnd iters n =
     (if n = 0 then Inl ZeroDivisionError
      else Inr (max 1 (py_int (rnd (real_of_int iters / real n)))))"

text \<open>
  The driver \<^verbatim>\<open>eaMuPlusLambda\<close> belongs to the DEAP library; its generational loop is
  \<^verbatim>\<open>for gen in range(1, ngen + 1)\<close>. The number of generations it runs is the length of
  that range.
\<close>

definition generations :: "int \<Rightarrow> nat" where
  "generations g = length [1..<nat (g + 1)]"

subsection \<open>The initial population of \<^verbatim>\<open>main\<close>\<close>

text \<open>
  \<^verbatim>\<open>[max(min(x, bounds[z][1]), bounds[z][0]) for z, x in enumerate(individual)]\<close>:
  \<open>adjusted\<close> is the list built, \<open>clamp_individual\<close> adds the \<^verbatim>\<open>IndexError\<close> of
  \<^verbatim>\<open>bounds[z]\<close> when the individual has more values than there are bounds.
\<close>

definition adjusted :: "(real \<times> real) list \<Rightarrow> real list \<Rightarrow> real list" where
  "adjusted bounds individual =
     map (\<lambda>(z, x). max (min x (snd (bounds ! z))) (fst (bounds ! z))) (enumerate 0 individual)"

definition clamp_individual :: "(real \<times> real) list \<Rightarrow> real list \<Rightarrow> error + real list" where
  "clamp_individual bounds individual =
     (if length individual \<le> length bounds then Inr (adjusted bounds individual)
      else Inl IndexError)"

text \<open>
  The loop \<^verbatim>\<open>for i in range(len(starting_individuals))\<close> with its assignment
  \<^verbatim>\<open>population[i] = creator.Individual(adjusted)\<close>, which raises when \<open>i\<close> is not an
  index of the population.
\<close>

fun seed_loop ::
  "(real \<times> real) list \<Rightarrow> real list list \<Rightarrow> nat \<Rightarrow> real list list \<Rightarrow> error + real list list" where
  "seed_loop bounds [] i population = Inr population"
| "seed_loop bounds (s # rest) i population =
     (case clamp_individual bounds s of
        Inl e \<Rightarrow> Inl e
      | Inr a \<Rightarrow>
          if i < length population then seed_loop bounds rest (Suc i) (population[i := a])
          else Inl IndexError)"

text \<open>
  Lines 352 to 367 of \<^verbatim>\<open>main\<close>. \<^verbatim>\<open>toolbox.population(n)\<close> calls
  \<^verbatim>\<open>create_individual\<close> \<open>n\<close> times (none for \<open>n \<le> 0\<close>); the random individual made by
  the \<open>k\<close>-th call is the parameter \<open>create_individual k\<close>. The result is the population
  size stored back into the configuration and the population.
\<close>

definition initial_population ::
  "(nat \<Rightarrow> real list) \<Rightarrow> (real \<times> real) list \<Rightarrow> int \<Rightarrow> real list list \<Rightarrow>
     error + int \<times> real list list" where
  "initial_population create_individual bounds population_size starting_individuals =
     (let population_size' =
            (if int (length starting_individuals) > population_size
             then int (length starting_individuals) else population_size);
          population = map create_individual [0..<nat population_size']
      in case (if starting_individuals \<noteq> []
               then seed_loop bounds starting_individuals 0 population
               else Inr population) of
           Inl e \<Rightarrow> Inl e
         | Inr population' \<Rightarrow> Inr (population_size', population'))"

subsection \<open>The wrappers of the bounded genetic operators\<close>

text \<open>
  \<^verbatim>\<open>tools.mutPolynomialBounded\<close> and \<^verbatim>\<open>tools.cxSimulatedBinaryBounded\<close> belong to the
  DEAP library and draw random numbers. They are parameters of the model: any function
  from the individual(s) and the adjusted bounds to the individual(s) as mutated in place,
  or to an exception. The crowding degree \<^verbatim>\<open>eta\<close> and the probability \<^verbatim>\<open>indpb\<close> are
  only passed on, so they are part of that parameter.

  \<^verbatim>\<open>low\<close> and \<^verbatim>\<open>up\<close> are sequences of the same length (in \<^verbatim>\<open>main\<close> both are built
  from \<^verbatim>\<open>param_bounds\<close>); numpy's comparison of arrays of different lengths is modelled
  as an error.
\<close>

definition equal_bounds_mask :: "real list \<Rightarrow> real list \<Rightarrow> bool list" where
  "equal_bounds_mask low up = map (\<lambda>(l, u). l = u) (zip low up)"

definition temp_low :: "bool list \<Rightarrow> real list \<Rightarrow> real list" where
  "temp_low m low = map (\<lambda>(e, l). if e then l - 1 / 10 ^ 6 else l) (zip m low)"

definition temp_up :: "bool list \<Rightarrow> real list \<Rightarrow> real list" where
  "temp_up m up = map (\<lambda>(e, u). if e then u + 1 / 10 ^ 6 else u) (zip m up)"

text \<open>
  \<^verbatim>\<open>for i, equal in enumerate(equal_bounds_mask): if equal: individual[i] = low[i]\<close>.
  The index \<open>i\<close> is always an index of \<^verbatim>\<open>low\<close>; the assignment raises when it is not
  an index of the individual.
\<close>

fun reset_loop :: "real list \<Rightarrow> (nat \<times> bool) list \<Rightarrow> real list \<Rightarrow> error + real list" where
  "reset_loop low [] individual = Inr individual"
| "reset_loop low ((i, equal) # rest) individual =
     (if equal
      then (if i < length individual
            then reset_loop low rest (individual[i := low ! i])
            else Inl IndexError)
      else reset_loop low rest individual)"

definition mutPolynomialBoundedWrapper ::
  "(real list \<Rightarrow> real list \<Rightarrow> real list \<Rightarrow> error + real list) \<Rightarrow>
     real list \<Rightarrow> real list \<Rightarrow> real list \<Rightarrow> error + real list" where
  "mutPolynomialBoundedWrapper mutPolynomialBounded individual low up =
     (if length low \<noteq> length up then Inl ValueError
      else
        let m = equal_bounds_mask low up
        in case mutPolynomialBounded individual (temp_low m low) (temp_up m up) of
             Inl e \<Rightarrow> Inl e
           | Inr individual' \<Rightarrow> reset_loop low (enumerate 0 m) individual')"

text \<open>The same loop with two assignments, \<^verbatim>\<open>ind1[i] = low[i]; ind2[i] = low[i]\<close>.\<close>

fun reset_loop2 ::
  "real list \<Rightarrow> (nat \<times> bool) list \<Rightarrow> real list \<Rightarrow> real list \<Rightarrow> error + real list \<times> real list" where
  "reset_loop2 low [] ind1 ind2 = Inr (ind1, ind2)"
| "reset_loop2 low ((i, equal) # rest) ind1 ind2 =
     (if equal
      then (if i < length ind1
            then (if i < length ind2
                  then reset_loop2 low rest (ind1[i := low ! i]) (ind2[i := low ! i])
                  else Inl IndexError)
            else Inl IndexError)
      else reset_loop2 low rest ind1 ind2)"

definition cxSimulatedBinaryBoundedWrapper ::
  "(real list \<Rightarrow> real list \<Rightarrow> real list \<Rightarrow> real list \<Rightarrow> error + real list \<times> real list) \<Rightarrow>
     real list \<Rightarrow> real list \<Rightarrow> real list \<Rightarrow> real list \<Rightarrow> error + real list \<times> real list" where
  "cxSimulatedBinaryBoundedWrapper cxSimulatedBinaryBounded ind1 ind2 low up =
     (if length low \<noteq> length up then Inl ValueError
      else
        let m = equal_bounds_mask low up
        in case cxSimulatedBinaryBounded ind1 ind2 (temp_low m low) (temp_up m up) of
             Inl e \<Rightarrow> Inl e
           | Inr (ind1', ind2') \<Rightarrow> reset_loop2 low (enumerate 0 m) ind1' ind2')"

text \<open>
  Sample operators for the wrappers: one that adds \<open>1\<close> to every value, and one that swaps
  the two parents and adds \<open>1\<close> to every value.
\<close>

definition shift_mutation :: "real list \<Rightarrow> real list \<Rightarrow> real list \<Rightarrow> error + real list" where
  "shift_mutation individual low up = Inr (map (\<lambda>x. x + 1) individual)"

definition swap_crossover ::
  "real list \<Rightarrow> real list \<Rightarrow> real list \<Rightarrow> real list \<Rightarrow> error + real list \<times> real list" where
  "swap_crossover ind1 ind2 low up = Inr (map (\<lambda>x. x + 1) ind2, map (\<lambda>x. x + 1) ind1)"

subsection \<open>Configurations and the genome codec\<close>

text \<open>
  A configuration is a Python value built from dictionaries with string keys. \<open>Atom\<close>
  stands for a value that is not a container (a number, a boolean, \<^verbatim>\<open>None\<close>), of a type
  left open; subscripting it or iterating over it raises. A dictionary is a finite map, so
  that equality of values is Python's \<^verbatim>\<open>==\<close>. Values are trees: no dictionary object
  occurs at two places of a configuration, as in a configuration loaded from a JSON file,
  and the in-place assignment to a nested dictionary is the rebuilding of the value around
  it. Object identity is the subject of the heap model below.
\<close>

datatype 'v pyv =
    Atom 'v
  | Dict "(string, 'v pyv) fmap"

text \<open>\<^verbatim>\<open>d[key]\<close>\<close>

fun getitem :: "'v pyv \<Rightarrow> string \<Rightarrow> error + 'v pyv" where
  "getitem (Dict d) key = (case fmlookup d key of None \<Rightarrow> Inl KeyError | Some v \<Rightarrow> Inr v)"
| "getitem (Atom _) key = Inl TypeError"

text \<open>\<^verbatim>\<open>d[key] = v\<close>, returning the dictionary as it is afterwards\<close>

fun setitem :: "'v pyv \<Rightarrow> string \<Rightarrow> 'v pyv \<Rightarrow> error + 'v pyv" where
  "setitem (Dict d) key v = Inr (Dict (fmupd key v d))"
| "setitem (Atom _) key v = Inl TypeError"

text \<open>\<^verbatim>\<open>sorted(d)\<close>: the keys in ascending order\<close>

fun sorted_keys :: "'v pyv \<Rightarrow> error + string list" where
  "sorted_keys (Dict d) = Inr (sorted_list_of_fset (fmdom d))"
| "sorted_keys (Atom _) = Inl TypeError"

text \<open>
  \<^verbatim>\<open>[v for k, v in sorted(d.items())]\<close>: the keys of a dictionary are distinct, so the
  pairs are ordered by their keys alone.
\<close>

fun sorted_values :: "'v pyv \<Rightarrow> error + 'v pyv list" where
  "sorted_values (Dict d) = Inr (map (\<lambda>k. the (fmlookup d k)) (sorted_list_of_fset (fmdom d)))"
| "sorted_values (Atom _) = Inl AttributeError"

text \<open>\<^verbatim>\<open>config_to_individual\<close>\<close>

definition config_to_individual :: "'v pyv \<Rightarrow> error + 'v pyv list" where
  "config_to_individual config =
     (case getitem config ''bot'' of
        Inl e \<Rightarrow> Inl e
      | Inr bot_d \<Rightarrow>
          (case getitem bot_d ''long'' of
             Inl e \<Rightarrow> Inl e
           | Inr long_d \<Rightarrow>
               (case sorted_values long_d of
                  Inl e \<Rightarrow> Inl e
                | Inr long_values \<Rightarrow>
                    (case getitem bot_d ''short'' of
                       Inl e \<Rightarrow> Inl e
                     | Inr short_d \<Rightarrow>
                         (case sorted_values short_d of
                            Inl e \<Rightarrow> Inl e
                          | Inr short_values \<Rightarrow> Inr (long_values @ short_values))))))"

text \<open>
  The inner loop of \<^verbatim>\<open>individual_to_config\<close> for one side,
  \<^verbatim>\<open>for key in keys: config["bot"][pside][key] = individual[i]; i += 1\<close>. The right-hand
  side is evaluated first, then \<^verbatim>\<open>config["bot"][pside]\<close>, then the entry is stored.
\<close>

fun write_keys ::
  "string \<Rightarrow> string list \<Rightarrow> 'v pyv list \<Rightarrow> nat \<Rightarrow> 'v pyv \<Rightarrow> error + 'v pyv \<times> nat" where
  "write_keys pside [] individual i config = Inr (config, i)"
| "write_keys pside (key # keys) individual i config =
     (if i < length individual
      then (case getitem config ''bot'' of
              Inl e \<Rightarrow> Inl e
            | Inr bot_d \<Rightarrow>
                (case getitem bot_d pside of
                   Inl e \<Rightarrow> Inl e
                 | Inr side \<Rightarrow>
                     (case setitem side key (individual ! i) of
                        Inl e \<Rightarrow> Inl e
                      | Inr side' \<Rightarrow>
                          (case setitem bot_d pside side' of
                             Inl e \<Rightarrow> Inl e
                           | Inr bot' \<Rightarrow>
                               (case setitem config ''bot'' bot' of
                                  Inl e \<Rightarrow> Inl e
                                | Inr config' \<Rightarrow>
                                    write_keys pside keys individual (Suc i) config')))))
      else Inl IndexError)"

text \<open>
  \<^verbatim>\<open>individual_to_config\<close>. The default template \<^verbatim>\<open>get_template_live_config("v7")\<close>
  is not part of the sources at hand and is the parameter \<open>v7\<close>. \<^verbatim>\<open>deepcopy\<close> of a value
  is the value.
\<close>

definition individual_to_config :: "'v pyv \<Rightarrow> 'v pyv list \<Rightarrow> 'v pyv option \<Rightarrow> error + 'v pyv" where
  "individual_to_config v7 individual template =
     (let config = (case template of None \<Rightarrow> v7 | Some t \<Rightarrow> t)
      in case getitem config ''bot'' of
           Inl e \<Rightarrow> Inl e
         | Inr bot_d \<Rightarrow>
             (case getitem bot_d ''long'' of
                Inl e \<Rightarrow> Inl e
              | Inr long_d \<Rightarrow>
                  (case sorted_keys long_d of
                     Inl e \<Rightarrow> Inl e
                   | Inr keys \<Rightarrow>
                       (case write_keys ''long'' keys individual 0 config of
                          Inl e \<Rightarrow> Inl e
                        | Inr (config1, i1) \<Rightarrow>
                            (case write_keys ''short'' keys individual i1 config1 of
                               Inl e \<Rightarrow> Inl e
                             | Inr (config2, i2) \<Rightarrow> Inr config2)))))"

text \<open>
  \<^verbatim>\<open>configs_to_individuals\<close>. \<^verbatim>\<open>format_config\<close> and \<^verbatim>\<open>calc_hash\<close> are not part of
  the sources at hand and are parameters; either may raise. An exception anywhere in the
  body of the \<^verbatim>\<open>try\<close> is logged and the configuration skipped. The dictionary
  \<^verbatim>\<open>inds\<close> keeps its keys in the order of their first insertion.
\<close>

fun configs_loop ::
  "('v pyv \<Rightarrow> error + 'v pyv) \<Rightarrow> ('v pyv list \<Rightarrow> error + 'h) \<Rightarrow> 'v pyv list \<Rightarrow>
     ('h \<times> 'v pyv list) list \<Rightarrow> ('h \<times> 'v pyv list) list" where
  "configs_loop format_config calc_hash [] inds = inds"
| "configs_loop format_config calc_hash (cfg # cfgs) inds =
     (case format_config cfg of
        Inl e \<Rightarrow> configs_loop format_config calc_hash cfgs inds
      | Inr formatted \<Rightarrow>
          (case config_to_individual formatted of
             Inl e \<Rightarrow> configs_loop format_config calc_hash cfgs inds
           | Inr individual \<Rightarrow>
               (case calc_hash individual of
                  Inl e \<Rightarrow> configs_loop format_config calc_hash cfgs inds
                | Inr h \<Rightarrow>
                    configs_loop format_config calc_hash cfgs (AList.update h individual inds))))"

definition configs_to_individuals ::
  "('v pyv \<Rightarrow> error + 'v pyv) \<Rightarrow> ('v pyv list \<Rightarrow> error + 'h) \<Rightarrow> 'v pyv list \<Rightarrow> 'v pyv list list" where
  "configs_to_individuals format_config calc_hash cfgs =
     map snd (configs_loop format_config calc_hash cfgs [])"

text \<open>
  Sample configurations: one parameter \<open>a\<close> on each side, and a section \<open>live\<close>
  outside the bot parameters.
\<close>

definition sample_config :: "int \<Rightarrow> int \<Rightarrow> int \<Rightarrow> int pyv" where
  "sample_config l s live =
     Dict (fmupd ''bot''
             (Dict (fmupd ''long'' (Dict (fmupd ''a'' (Atom l) fmempty))
                   (fmupd ''short'' (Dict (fmupd ''a'' (Atom s) fmempty)) fmempty)))
          (fmupd ''live'' (Atom live) fmempty))"


text \<open>
  The net effect of the inner loop on the dictionary of one side: the keys receive the
  values in order. It is used to state what \<open>write_keys\<close> computes.
\<close>

definition write_all ::
  "string list \<Rightarrow> 'v pyv list \<Rightarrow> (string, 'v pyv) fmap \<Rightarrow> (string, 'v pyv) fmap" where
  "write_all keys vals d = fold (\<lambda>(k, v). fmupd k v) (zip keys vals) d"

text \<open>
  The invariant of the loop of \<^verbatim>\<open>configs_to_individuals\<close>: every individual of
  \<^verbatim>\<open>inds\<close> is stored under its own hash.
\<close>

definition hashed :: "('i \<Rightarrow> error + 'h) \<Rightarrow> ('h \<times> 'i) list \<Rightarrow> bool" where
  "hashed calc_hash inds \<longleftrightarrow> (\<forall>(h, individual) \<in> set inds. calc_hash individual = Inr h)"

text \<open>
  Samples of the two parameters: a formatter that returns the configuration as it is, and
  a hash that tells all genomes apart.
\<close>

definition sample_format_config :: "int pyv \<Rightarrow> error + int pyv" where
  "sample_format_config cfg = Inr cfg"

definition sample_calc_hash :: "int pyv list \<Rightarrow> error + int pyv list" where
  "sample_calc_hash individual = Inr individual"

subsection \<open>Configurations as objects\<close>

text \<open>
  Whether decoding changes its template is a question about objects, not values. A
  dictionary object lives at an address of the heap; its entries are values that are not
  containers (\<open>Imm\<close>) or references to dictionary objects (\<open>Ref\<close>), so that two
  entries may hold the same object and an object may contain itself. The heap gives the
  dictionary at every address and the next free address; an address from there on is
  not in use. Dictionaries are the only objects of the model: they are the only ones that
  decoding writes to.
\<close>

type_synonym addr = nat

datatype 'v ref_val = Imm 'v | Ref addr

type_synonym 'v obj = "(string, 'v ref_val) fmap"

record 'v heap =
  cells :: "addr \<Rightarrow> 'v obj"
  next_addr :: addr

text \<open>\<^verbatim>\<open>memo\<close> of \<^verbatim>\<open>deepcopy\<close>: the copies made so far, by the address of the original\<close>

type_synonym memo = "addr \<Rightarrow> addr option"

text \<open>
  \<^verbatim>\<open>x.items()\<close>. The order of the entries of a dictionary object is not part of the
  model: the entries are taken in the order of their keys, and the order decides nothing
  but the addresses of the copies.
\<close>

definition items :: "'v obj \<Rightarrow> (string \<times> 'v ref_val) list" where
  "items d = map (\<lambda>k. (k, the (fmlookup d k))) (sorted_list_of_fset (fmdom d))"

text \<open>\<^verbatim>\<open>y = {}\<close>: a new, empty dictionary object\<close>

definition new_dict :: "'v heap \<Rightarrow> addr \<times> 'v heap" where
  "new_dict h = (next_addr h, \<lparr>cells = (cells h)(next_addr h := fmempty), next_addr = Suc (next_addr h)\<rparr>)"

text \<open>\<^verbatim>\<open>d[key]\<close>, \<^verbatim>\<open>d[key] = v\<close> and \<^verbatim>\<open>sorted(d)\<close> on objects\<close>

fun getitem_heap :: "'v heap \<Rightarrow> 'v ref_val \<Rightarrow> string \<Rightarrow> error + 'v ref_val" where
  "getitem_heap h (Ref a) key =
     (case fmlookup (cells h a) key of None \<Rightarrow> Inl KeyError | Some v \<Rightarrow> Inr v)"
| "getitem_heap h (Imm _) key = Inl TypeError"

fun setitem_heap :: "'v ref_val \<Rightarrow> string \<Rightarrow> 'v ref_val \<Rightarrow> 'v heap \<Rightarrow> error + 'v heap" where
  "setitem_heap (Ref a) key v h = Inr (h\<lparr>cells := (cells h)(a := fmupd key v (cells h a))\<rparr>)"
| "setitem_heap (Imm _) key v h = Inl TypeError"

fun sorted_keys_heap :: "'v heap \<Rightarrow> 'v ref_val \<Rightarrow> error + string list" where
  "sorted_keys_heap h (Ref a) = Inr (sorted_list_of_fset (fmdom (cells h a)))"
| "sorted_keys_heap h (Imm _) = Inl TypeError"

text \<open>
  \<^verbatim>\<open>copy.deepcopy\<close> on dictionaries, as the standard library defines it: a value
  that is not a container is returned as it is; an object that was copied before is
  answered from \<^verbatim>\<open>memo\<close>; otherwise a new dictionary is entered into \<^verbatim>\<open>memo\<close>
  and filled with the copies of the entries. \<open>depth\<close> is the number of nested calls the
  interpreter allows; beyond it \<^verbatim>\<open>RecursionError\<close> is raised. The heap is returned in
  every case, also when an exception is raised.
\<close>

fun deepcopy :: "nat \<Rightarrow> 'v ref_val \<Rightarrow> memo \<Rightarrow> 'v heap \<Rightarrow> (error + 'v ref_val) \<times> memo \<times> 'v heap"
and copy_items :: "nat \<Rightarrow> addr \<Rightarrow> (string \<times> 'v ref_val) list \<Rightarrow> memo \<Rightarrow> 'v heap \<Rightarrow>
                     error option \<times> memo \<times> 'v heap" where
  "deepcopy 0 x memo h = (Inl RecursionError, memo, h)"
| "deepcopy (Suc depth) (Imm x) memo h = (Inr (Imm x), memo, h)"
| "deepcopy (Suc depth) (Ref a) memo h =
     (case memo a of
        Some y \<Rightarrow> (Inr (Ref y), memo, h)
      | None \<Rightarrow>
          (case new_dict h of
             (y, h1) \<Rightarrow>
               (case copy_items depth y (items (cells h a)) (memo(a \<mapsto> y)) h1 of
                  (Some e, memo', h') \<Rightarrow> (Inl e, memo', h')
                | (None, memo', h') \<Rightarrow> (Inr (Ref y), memo', h'))))"
| "copy_items depth y [] memo h = (None, memo, h)"
| "copy_items depth y ((key, v) # rest) memo h =
     (case deepcopy depth v memo h of
        (Inl e, memo', h') \<Rightarrow> (Some e, memo', h')
      | (Inr v', memo', h') \<Rightarrow>
          (case setitem_heap (Ref y) key v' h' of
             Inl e \<Rightarrow> (Some e, memo', h')
           | Inr h'' \<Rightarrow> copy_items depth y rest memo' h''))"

text \<open>
  The inner loop of \<^verbatim>\<open>individual_to_config\<close> on objects. A genome is a list of
  numbers, which are not containers.
\<close>

fun write_keys_heap ::
  "string \<Rightarrow> string list \<Rightarrow> 'v list \<Rightarrow> nat \<Rightarrow> 'v ref_val \<Rightarrow> 'v heap \<Rightarrow> (error + nat) \<times> 'v heap" where
  "write_keys_heap pside [] individual i config h = (Inr i, h)"
| "write_keys_heap pside (key # keys) individual i config h =
     (if i < length individual
      then (case getitem_heap h config ''bot'' of
              Inl e \<Rightarrow> (Inl e, h)
            | Inr bot_d \<Rightarrow>
                (case getitem_heap h bot_d pside of
                   Inl e \<Rightarrow> (Inl e, h)
                 | Inr side \<Rightarrow>
                     (case setitem_heap side key (Imm (individual ! i)) h of
                        Inl e \<Rightarrow> (Inl e, h)
                      | Inr h' \<Rightarrow> write_keys_heap pside keys individual (Suc i) config h')))
      else (Inl IndexError, h))"

text \<open>
  \<^verbatim>\<open>individual_to_config\<close> on objects. \<^verbatim>\<open>get_template_live_config("v7")\<close> is not
  part of the sources at hand and is a parameter that returns an object and the heap
  with it.
\<close>

definition individual_to_config_heap ::
  "('v heap \<Rightarrow> 'v ref_val \<times> 'v heap) \<Rightarrow> nat \<Rightarrow> 'v list \<Rightarrow> 'v ref_val option \<Rightarrow> 'v heap \<Rightarrow>
     (error + 'v ref_val) \<times> 'v heap" where
  "individual_to_config_heap get_template_live_config depth individual template h =
     (case (case template of None \<Rightarrow> get_template_live_config h | Some t \<Rightarrow> (t, h)) of
        (template', h0) \<Rightarrow>
          (case deepcopy depth template' Map.empty h0 of
             (Inl e, memo, h1) \<Rightarrow> (Inl e, h1)
           | (Inr config, memo, h1) \<Rightarrow>
               (case getitem_heap h1 config ''bot'' of
                  Inl e \<Rightarrow> (Inl e, h1)
                | Inr bot_d \<Rightarrow>
                    (case getitem_heap h1 bot_d ''long'' of
                       Inl e \<Rightarrow> (Inl e, h1)
                     | Inr long_d \<Rightarrow>
                         (case sorted_keys_heap h1 long_d of
                            Inl e \<Rightarrow> (Inl e, h1)
                          | Inr keys \<Rightarrow>
                              (case write_keys_heap ''long'' keys individual 0 config h1 of
                                 (Inl e, h2) \<Rightarrow> (Inl e, h2)
                               | (Inr i1, h2) \<Rightarrow>
                                   (case write_keys_heap ''short'' keys individual i1 config h2 of
                                      (Inl e, h3) \<Rightarrow> (Inl e, h3)
                                    | (Inr i2, h3) \<Rightarrow> (Inr config, h3))))))))"

text \<open>
  The invariant of the copy. \<open>L\<close> is the first address that was free before the call:
  the objects of the copy are those from \<open>L\<close> on. A value is in the copy if it is not a
  reference to an older object; the copy is closed if \<^verbatim>\<open>memo\<close> and the entries of
  the objects of the copy hold nothing but values in the copy; and two heaps are the same
  below \<open>L\<close> if every older object has the same entries in both.
\<close>

definition in_copy :: "addr \<Rightarrow> 'v heap \<Rightarrow> 'v ref_val \<Rightarrow> bool" where
  "in_copy L h v = (case v of Imm x \<Rightarrow> True | Ref a \<Rightarrow> L \<le> a \<and> a < next_addr h)"

definition copied :: "addr \<Rightarrow> memo \<Rightarrow> 'v heap \<Rightarrow> bool" where
  "copied L memo h \<longleftrightarrow>
     L \<le> next_addr h \<and>
     (\<forall>a y. memo a = Some y \<longrightarrow> L \<le> y \<and> y < next_addr h) \<and>
     (\<forall>b k v. L \<le> b \<longrightarrow> b < next_addr h \<longrightarrow> fmlookup (cells h b) k = Some v \<longrightarrow> in_copy L h v)"

definition same_below :: "addr \<Rightarrow> 'v heap \<Rightarrow> 'v heap \<Rightarrow> bool" where
  "same_below L h h' \<longleftrightarrow> next_addr h \<le> next_addr h' \<and> (\<forall>a<L. cells h' a = cells h a)"

text \<open>A template with one parameter on each side, and a section outside the bot parameters.\<close>

definition sample_heap :: "int heap" where
  "sample_heap =
     \<lparr>cells = (\<lambda>a. fmempty)
        (0 := fmupd ''bot'' (Ref 1) (fmupd ''live'' (Imm 0) fmempty),
         1 := fmupd ''long'' (Ref 2) (fmupd ''short'' (Ref 3) fmempty),
         2 := fmupd ''a'' (Imm 1) fmempty,
         3 := fmupd ''a'' (Imm 2) fmempty),
      next_addr = 4\<rparr>"

definition sample_get_template :: "int heap \<Rightarrow> int ref_val \<times> int heap" where
  "sample_get_template h = (Imm 0, h)"

subsection \<open>Shared memory and the teardown of a run\<close>

text \<open>
  What a run raises: \<open>Exception\<close> stands for an exception of a class derived from
  \<^verbatim>\<open>Exception\<close> that a library call raises, \<open>UnboundLocalError\<close> is raised by the
  use of a local variable that was never assigned, and \<open>SystemExit\<close> is raised by
  \<^verbatim>\<open>sys.exit(0)\<close>, which \<^verbatim>\<open>signal_handler\<close> calls when the run is interrupted. The
  clause \<^verbatim>\<open>except Exception\<close> catches the first two and not the third.
\<close>

datatype exc = Exception | UnboundLocalError | SystemExit

text \<open>
  A shared-memory segment, as far as its release goes: whether it has been created, and
  how often \<^verbatim>\<open>close\<close> and \<^verbatim>\<open>unlink\<close> have been called on it. The state of a run
  is the two segments of the evaluator.
\<close>

record shm =
  created :: bool
  closes :: nat
  unlinks :: nat

record segments =
  shared_hlcs :: shm
  shared_preferred_coins :: shm

definition no_segments :: segments where
  "no_segments =
     \<lparr>shared_hlcs = \<lparr>created = False, closes = 0, unlinks = 0\<rparr>,
      shared_preferred_coins = \<lparr>created = False, closes = 0, unlinks = 0\<rparr>\<rparr>"

definition create_hlcs :: "segments \<Rightarrow> segments" where
  "create_hlcs s = s\<lparr>shared_hlcs := (shared_hlcs s)\<lparr>created := True\<rparr>\<rparr>"

definition create_preferred_coins :: "segments \<Rightarrow> segments" where
  "create_preferred_coins s =
     s\<lparr>shared_preferred_coins := (shared_preferred_coins s)\<lparr>created := True\<rparr>\<rparr>"

definition close_hlcs :: "segments \<Rightarrow> segments" where
  "close_hlcs s = s\<lparr>shared_hlcs := (shared_hlcs s)\<lparr>closes := closes (shared_hlcs s) + 1\<rparr>\<rparr>"

definition unlink_hlcs :: "segments \<Rightarrow> segments" where
  "unlink_hlcs s = s\<lparr>shared_hlcs := (shared_hlcs s)\<lparr>unlinks := unlinks (shared_hlcs s) + 1\<rparr>\<rparr>"

definition close_preferred_coins :: "segments \<Rightarrow> segments" where
  "close_preferred_coins s =
     s\<lparr>shared_preferred_coins :=
         (shared_preferred_coins s)\<lparr>closes := closes (shared_preferred_coins s) + 1\<rparr>\<rparr>"

definition unlink_preferred_coins :: "segments \<Rightarrow> segments" where
  "unlink_preferred_coins s =
     s\<lparr>shared_preferred_coins :=
         (shared_preferred_coins s)\<lparr>unlinks := unlinks (shared_preferred_coins s) + 1\<rparr>\<rparr>"

text \<open>
  Whether a statement raises is not decided by the program: a library call may fail,
  and an interrupt may arrive at any statement. It is a parameter \<open>fault\<close> of the run,
  from the line of a statement in \<^verbatim>\<open>optimize.py\<close> to what is raised when the run
  reaches that line, if anything. A statement that raises has no effect. A block of
  statements is run in order up to the first one that raises.
\<close>

type_synonym faults = "nat \<Rightarrow> exc option"

fun run_lines ::
  "faults \<Rightarrow> (nat \<times> (segments \<Rightarrow> segments)) list \<Rightarrow> segments \<Rightarrow> exc option \<times> segments" where
  "run_lines fault [] s = (None, s)"
| "run_lines fault ((line, effect) # rest) s =
     (case fault line of
        Some e \<Rightarrow> (Some e, s)
      | None \<Rightarrow> run_lines fault rest (effect s))"

text \<open>\<^verbatim>\<open>Evaluator.__init__\<close>, lines 150 to 171\<close>

definition Evaluator_init :: "faults \<Rightarrow> segments \<Rightarrow> exc option \<times> segments" where
  "Evaluator_init fault =
     run_lines fault
       [(150, id), (151, create_hlcs), (152, id), (155, id), (156, id),
        (158, id), (159, create_preferred_coins), (162, id), (167, id), (168, id),
        (169, id), (171, id)]"

text \<open>\<^verbatim>\<open>Evaluator.cleanup\<close>, lines 211 to 214\<close>

definition cleanup :: "faults \<Rightarrow> segments \<Rightarrow> exc option \<times> segments" where
  "cleanup fault =
     run_lines fault
       [(211, close_hlcs), (212, unlink_hlcs),
        (213, close_preferred_coins), (214, unlink_preferred_coins)]"

text \<open>
  The \<^verbatim>\<open>try\<close> block of \<^verbatim>\<open>main\<close>, lines 303 to 412: the evaluator is constructed
  and bound to the local variable \<^verbatim>\<open>evaluator\<close>, and the rest of the block, which
  neither creates nor releases a segment, is the one step of line 304. The result is
  what was raised, whether \<^verbatim>\<open>evaluator\<close> is bound, and the segments.
\<close>

definition try_block :: "faults \<Rightarrow> segments \<Rightarrow> exc option \<times> bool \<times> segments" where
  "try_block fault s =
     (case fault 303 of
        Some e \<Rightarrow> (Some e, False, s)
      | None \<Rightarrow>
          (case Evaluator_init fault s of
             (Some e, s') \<Rightarrow> (Some e, False, s')
           | (None, s') \<Rightarrow> (fault 304, True, s')))"

text \<open>
  \<^verbatim>\<open>except Exception as e: traceback.print_exc()\<close>, lines 413 and 414: what is still
  raised after the clause.
\<close>

fun except_clause :: "faults \<Rightarrow> exc option \<Rightarrow> exc option" where
  "except_clause fault None = None"
| "except_clause fault (Some SystemExit) = Some SystemExit"
| "except_clause fault (Some e) = fault 414"

text \<open>
  The \<^verbatim>\<open>finally\<close> block, lines 417 to 419. An exception raised in the block takes the
  place of the one that was pending, and the block ends with \<^verbatim>\<open>sys.exit(0)\<close>.
\<close>

definition finally_block ::
  "faults \<Rightarrow> exc option \<Rightarrow> bool \<Rightarrow> segments \<Rightarrow> exc option \<times> segments" where
  "finally_block fault pending bound s =
     (case fault 417 of
        Some e \<Rightarrow> (Some e, s)
      | None \<Rightarrow>
          if bound
          then (case cleanup fault s of
                  (Some e, s') \<Rightarrow> (Some e, s')
                | (None, s') \<Rightarrow> (Some SystemExit, s'))
          else (Some UnboundLocalError, s))"

text \<open>\<^verbatim>\<open>main\<close> from line 302 on: what the run ends with, and the segments then\<close>

definition main :: "faults \<Rightarrow> segments \<Rightarrow> exc option \<times> segments" where
  "main fault s =
     (case try_block fault s of
        (raised, bound, s') \<Rightarrow> finally_block fault (except_clause fault raised) bound s')"

text \<open>
  Three runs: the creation of the second segment fails, the run is interrupted in the last
  statement of \<^verbatim>\<open>Evaluator.__init__\<close>, and the backtests fail.
\<close>

definition second_creation_fails :: faults where
  "second_creation_fails = (\<lambda>line. None)(159 := Some Exception)"

definition interrupted_in_init :: faults where
  "interrupted_in_init = (\<lambda>line. None)(171 := Some SystemExit)"

definition backtest_fails :: faults where
  "backtest_fails = (\<lambda>line. None)(304 := Some Exception)"
section \<open>Properties\<close>

subsection \<open>Fitness scores\<close>

lemma calc_modifier_eq:
  "calc_modifier cfg a =
     (case violation cfg a ''drawdown_worst'' of
        Inl e \<Rightarrow> Inl e
      | Inr v4 \<Rightarrow>
         (case violation cfg a ''equity_balance_diff_mean'' of
            Inl e \<Rightarrow> Inl e
          | Inr v3 \<Rightarrow>
             (case violation cfg a ''loss_profit_ratio'' of
                Inl e \<Rightarrow> Inl e
              | Inr v2 \<Rightarrow> Inr (v4 * 10 ^ 4 + v3 * 10 ^ 3 + v2 * 10 ^ 2))))"
  by (simp add: calc_modifier_def constrained_def split: sum.splits)

lemma violation_nonneg: "violation cfg a key = Inr v \<Longrightarrow> 0 \<le> v"
  by (auto simp: violation_def split: option.splits)

lemma violation_scoring [simp]: "violation (cfg\<lparr>scoring := sc\<rparr>) a key = violation cfg a key"
  by (simp add: violation_def)

lemma violation_cong:
  "a' key = a key \<Longrightarrow> violation cfg a' key = violation cfg a key"
  unfolding violation_def by (erule subst) (rule refl)

lemma calc_modifier_frame:
  assumes "a' ''drawdown_worst'' = a ''drawdown_worst''"
      and "a' ''equity_balance_diff_mean'' = a ''equity_balance_diff_mean''"
      and "a' ''loss_profit_ratio'' = a ''loss_profit_ratio''"
  shows "calc_modifier (cfg\<lparr>scoring := sc\<rparr>) a' = calc_modifier cfg a"
proof -
  have "violation cfg a' ''drawdown_worst'' = violation cfg a ''drawdown_worst''"
       "violation cfg a' ''equity_balance_diff_mean'' = violation cfg a ''equity_balance_diff_mean''"
       "violation cfg a' ''loss_profit_ratio'' = violation cfg a ''loss_profit_ratio''"
    using assms by (auto intro: violation_cong)
  then show ?thesis
    by (simp only: calc_modifier_eq violation_scoring)
qed

lemma calc_modifier_config0:
  "calc_modifier config0 (stats dd em lpr ex adg sh) =
     Inr ((max (1/4) dd - 1/4) * 10 ^ 4 + (max (1/8) em - 1/8) * 10 ^ 3 + (max (1/2) lpr - 1/2) * 10 ^ 2)"
  by (simp add: calc_modifier_eq violation_def config0_def limits0_def stats_def)

lemma objective_config0:
  "objective config0 (stats dd em lpr ex adg sh) 0 = Inr adg"
  "objective config0 (stats dd em lpr ex adg sh) 1 = Inr sh"
  "objective config0 (stats dd em lpr ex adg sh) (Suc 0) = Inr sh"
  by (simp_all add: objective_def config0_def stats_def)

lemma stats_lookup:
  "stats dd em lpr ex adg sh ''drawdown_worst'' = Some dd"
  "stats dd em lpr ex adg sh ''equity_balance_diff_mean'' = Some em"
  "stats dd em lpr ex adg sh ''loss_profit_ratio'' = Some lpr"
  "stats dd em lpr ex adg sh ''equity_balance_diff_max'' = Some ex"
  by (simp_all add: stats_def)

text \<open>
  Claim C1. For a statistics record that holds the entries \<^verbatim>\<open>calc_fitness\<close> reads, with
  constraint modifier \<open>m\<close>: if the worst drawdown is at least \<open>1.0\<close> or the maximum
  equity/balance divergence is below \<open>0.1\<close>, both scores are \<open>m\<close>, whatever metrics are
  configured as objectives and whatever any statistic other than the four read so far is;
  otherwise the scores are \<open>m\<close> minus the value of the first and of the second configured
  objective metric.
\<close>

theorem calc_fitness_scores:
  assumes "calc_modifier cfg a = Inr m"
      and "a ''drawdown_worst'' = Some dd"
      and "a ''equity_balance_diff_max'' = Some ebd"
  shows "(dd \<ge> 1 \<or> ebd < 1 / 10 \<longrightarrow>
            calc_fitness cfg a = Inr (m, m) \<and>
            (\<forall>sc a'. (\<forall>k \<in> {''drawdown_worst'', ''equity_balance_diff_mean'',
                               ''loss_profit_ratio'', ''equity_balance_diff_max''}. a' k = a k) \<longrightarrow>
                 calc_fitness (cfg\<lparr>scoring := sc\<rparr>) a' = Inr (m, m))) \<and>
         (\<not> (dd \<ge> 1 \<or> ebd < 1 / 10) \<longrightarrow>
            (\<forall>v0 v1. objective cfg a 0 = Inr v0 \<and> objective cfg a 1 = Inr v1 \<longrightarrow>
                 calc_fitness cfg a = Inr (m - v0, m - v1)))"
proof (intro conjI impI allI)
  assume d: "dd \<ge> 1 \<or> ebd < 1 / 10"
  with assms show "calc_fitness cfg a = Inr (m, m)"
    by (auto simp: calc_fitness_def)
next
  fix sc a'
  assume d: "dd \<ge> 1 \<or> ebd < 1 / 10"
     and eq: "\<forall>k \<in> {''drawdown_worst'', ''equity_balance_diff_mean'',
                      ''loss_profit_ratio'', ''equity_balance_diff_max''}. a' k = a k"
  from eq have "calc_modifier (cfg\<lparr>scoring := sc\<rparr>) a' = calc_modifier cfg a"
    by (intro calc_modifier_frame) simp_all
  moreover from eq have "a' ''drawdown_worst'' = Some dd" "a' ''equity_balance_diff_max'' = Some ebd"
    using assms by simp_all
  ultimately show "calc_fitness (cfg\<lparr>scoring := sc\<rparr>) a' = Inr (m, m)"
    using assms(1) d by (auto simp: calc_fitness_def)
next
  fix v0 v1
  assume "\<not> (dd \<ge> 1 \<or> ebd < 1 / 10)"
     and "objective cfg a 0 = Inr v0 \<and> objective cfg a 1 = Inr v1"
  with assms show "calc_fitness cfg a = Inr (m - v0, m - v1)"
    by (auto simp: calc_fitness_def)
qed

text \<open>
  The theorem at a disqualified record (worst drawdown \<open>1\<close>, modifier \<open>7500\<close>), also with
  no scoring metric configured, and at a record that is not disqualified.
\<close>

theorem calc_fitness_scores_witness:
  "calc_fitness config0 (stats 1 (1/8) (1/2) 1 3 4) = Inr (7500, 7500) \<and>
   calc_fitness (config0\<lparr>scoring := []\<rparr>) (stats 1 (1/8) (1/2) 1 3 4) = Inr (7500, 7500) \<and>
   calc_fitness config0 (stats (1/2) (1/8) (1/2) 1 3 4) = Inr (2497, 2496)"
proof -
  have m1: "calc_modifier config0 (stats 1 (1/8) (1/2) 1 3 4) = Inr 7500"
    by (simp add: calc_modifier_config0)
  have m2: "calc_modifier config0 (stats (1/2) (1/8) (1/2) 1 3 4) = Inr 2500"
    by (simp add: calc_modifier_config0)
  have same: "\<forall>k \<in> {''drawdown_worst'', ''equity_balance_diff_mean'',
                   ''loss_profit_ratio'', ''equity_balance_diff_max''}.
                stats 1 (1/8) (1/2) 1 3 4 k = stats 1 (1/8) (1/2) 1 3 4 k"
    by simp
  from calc_fitness_scores [OF m1 stats_lookup(1) stats_lookup(4)]
  have d: "calc_fitness config0 (stats 1 (1/8) (1/2) 1 3 4) = Inr (7500, 7500)"
    and i: "\<And>sc a'. (\<forall>k \<in> {''drawdown_worst'', ''equity_balance_diff_mean'',
                   ''loss_profit_ratio'', ''equity_balance_diff_max''}.
                a' k = stats 1 (1/8) (1/2) 1 3 4 k) \<Longrightarrow>
             calc_fitness (config0\<lparr>scoring := sc\<rparr>) a' = Inr (7500, 7500)"
    by simp_all
  from calc_fitness_scores [OF m2 stats_lookup(1) stats_lookup(4)]
  have q: "calc_fitness config0 (stats (1/2) (1/8) (1/2) 1 3 4) = Inr (2497, 2496)"
    by (simp add: objective_config0)
  from d i [OF same] q show ?thesis by simp
qed

text \<open>
  Claim C10. Whenever \<^verbatim>\<open>calc_fitness\<close> computes a modifier, it is non-negative; it is
  zero when none of the three constrained statistics exceeds its lower bound; and the two
  scores of a disqualified evaluation are the modifier, hence non-negative.
\<close>

theorem modifier_nonneg:
  assumes "calc_modifier cfg a = Inr m"
  shows "0 \<le> m \<and>
         ((\<forall>(i, key) \<in> set constrained. \<forall>lb x.
              limits cfg (''lower_bound_'' @ key) = Some lb \<and> a key = Some x \<longrightarrow> x \<le> lb) \<longrightarrow> m = 0) \<and>
         (\<forall>dd w0 w1. a ''drawdown_worst'' = Some dd \<and>
              (dd \<ge> 1 \<or> (\<exists>ebd. a ''equity_balance_diff_max'' = Some ebd \<and> ebd < 1 / 10)) \<and>
              calc_fitness cfg a = Inr (w0, w1) \<longrightarrow> w0 = m \<and> w1 = m \<and> 0 \<le> w0 \<and> 0 \<le> w1)"
proof -
  from assms obtain v4 v3 v2 where
    v: "violation cfg a ''drawdown_worst'' = Inr v4"
       "violation cfg a ''equity_balance_diff_mean'' = Inr v3"
       "violation cfg a ''loss_profit_ratio'' = Inr v2"
    and m: "m = v4 * 10 ^ 4 + v3 * 10 ^ 3 + v2 * 10 ^ 2"
    by (auto simp: calc_modifier_eq split: sum.splits)
  from v have nn: "0 \<le> v4" "0 \<le> v3" "0 \<le> v2"
    by (auto dest: violation_nonneg)
  then have pos: "0 \<le> m"
    unfolding m by simp
  have zero: "m = 0"
    if le: "\<forall>(i, key) \<in> set constrained. \<forall>lb x.
              limits cfg (''lower_bound_'' @ key) = Some lb \<and> a key = Some x \<longrightarrow> x \<le> lb"
  proof -
    have "v = 0" if "violation cfg a key = Inr v" "(i, key) \<in> set constrained" for i key v
      using that le by (fastforce simp: violation_def split: option.splits)
    with v have "v4 = 0" "v3 = 0" "v2 = 0"
      by (simp_all add: constrained_def)
    then show ?thesis by (simp add: m)
  qed
  have dis: "w0 = m \<and> w1 = m \<and> 0 \<le> w0 \<and> 0 \<le> w1"
    if "a ''drawdown_worst'' = Some dd"
       "dd \<ge> 1 \<or> (\<exists>ebd. a ''equity_balance_diff_max'' = Some ebd \<and> ebd < 1 / 10)"
       "calc_fitness cfg a = Inr (w0, w1)" for dd w0 w1
    using that assms pos by (auto simp: calc_fitness_def split: if_splits)
  from pos zero dis show ?thesis by blast
qed

text \<open>
  The theorem at a record with a violated drawdown bound (modifier \<open>7500\<close>) and at a
  disqualified record that violates no bound (modifier and both scores \<open>0\<close>).
\<close>

theorem modifier_nonneg_witness:
  "calc_modifier config0 (stats 1 (1/8) (1/2) 1 3 4) = Inr 7500 \<and> (0::real) \<le> 7500 \<and>
   calc_modifier config0 (stats (1/4) (1/8) (1/2) (1/20) 3 4) = Inr 0 \<and>
   calc_fitness config0 (stats (1/4) (1/8) (1/2) (1/20) 3 4) = Inr (0, 0)"
proof -
  have m1: "calc_modifier config0 (stats 1 (1/8) (1/2) 1 3 4) = Inr 7500"
    by (simp add: calc_modifier_config0)
  have m2: "calc_modifier config0 (stats (1/4) (1/8) (1/2) (1/20) 3 4) = Inr 0"
    by (simp add: calc_modifier_config0)
  have f2: "calc_fitness config0 (stats (1/4) (1/8) (1/2) (1/20) 3 4) = Inr (0, 0)"
    by (simp add: calc_fitness_def m2 stats_lookup)
  have p: "(0::real) \<le> 7500"
    using modifier_nonneg [OF m1] by (rule conjunct1)
  have pre: "stats (1/4) (1/8) (1/2) (1/20) 3 4 ''drawdown_worst'' = Some (1/4) \<and>
        ((1/4 :: real) \<ge> 1 \<or> (\<exists>ebd. stats (1/4) (1/8) (1/2) (1/20) 3 4 ''equity_balance_diff_max'' = Some ebd \<and> ebd < 1 / 10)) \<and>
        calc_fitness config0 (stats (1/4) (1/8) (1/2) (1/20) 3 4) = Inr (0, 0)"
    by (intro conjI disjI2 exI [of _ "1 / 20"]) (simp_all add: stats_lookup f2)
  have q: "(0::real) = 0 \<and> (0::real) = 0 \<and> (0::real) \<le> 0 \<and> (0::real) \<le> 0"
    using modifier_nonneg [OF m2, THEN conjunct2, THEN conjunct2, rule_format, OF pre] .
  from m1 m2 f2 p q show ?thesis by simp
qed

text \<open>
  Claim C4, as stated, fails. With lower bounds \<open>1/4\<close>, \<open>1/8\<close>, \<open>1/2\<close>, a record whose
  worst drawdown exceeds its bound by \<open>1/1024\<close> has modifier \<open>625/64\<close>, below the
  modifier \<open>100\<close> of a record that violates only the loss/profit-ratio bound, by \<open>1\<close>.
\<close>

theorem modifier_priority_counterexample:
  "calc_modifier config0 (stats (1/4 + 1/1024) (1/8) (1/2) 1 3 4) = Inr (625 / 64) \<and>
   calc_modifier config0 (stats (1/4) (1/8) (1/2 + 1) 1 3 4) = Inr 100 \<and>
   (1/4 :: real) < 1/4 + 1/1024 \<and> (1/2 :: real) < 1/2 + 1 \<and>
   \<not> ((100 :: real) < 625 / 64)"
  by (simp add: calc_modifier_config0)

subsection \<open>The modifier under rounding\<close>

text \<open>With the identity as rounding, the rounded loop is the exact one.\<close>

lemma violation_fl_id: "violation_fl (\<lambda>x. x) cfg a key = violation cfg a key"
  by (simp add: violation_fl_def violation_def)

lemma modifier_loop_fl_id: "modifier_loop_fl (\<lambda>x. x) cfg a ks m = modifier_loop cfg a ks m"
  by (induction ks arbitrary: m) (auto simp: violation_fl_id split: sum.splits)

lemma calc_modifier_fl_id: "calc_modifier_fl (\<lambda>x. x) cfg a = calc_modifier cfg a"
  by (simp add: calc_modifier_fl_def calc_modifier_def modifier_loop_fl_id)

lemma calc_modifier_fl_eq:
  "calc_modifier_fl rnd cfg a =
     (case weighted_fl rnd cfg a 4 ''drawdown_worst'' of
        Inl e \<Rightarrow> Inl e
      | Inr w4 \<Rightarrow>
         (case weighted_fl rnd cfg a 3 ''equity_balance_diff_mean'' of
            Inl e \<Rightarrow> Inl e
          | Inr w3 \<Rightarrow>
             (case weighted_fl rnd cfg a 2 ''loss_profit_ratio'' of
                Inl e \<Rightarrow> Inl e
              | Inr w2 \<Rightarrow> Inr (rnd (rnd (rnd (0 + w4) + w3) + w2)))))"
  by (simp add: calc_modifier_fl_def constrained_def weighted_fl_def split: sum.splits)

lemma weighted_fl_nonneg:
  assumes "mono rnd" "rnd 0 = 0" "weighted_fl rnd cfg a i key = Inr w"
  shows "0 \<le> w"
proof -
  from assms(3) obtain lb x where w: "w = rnd (rnd (max lb x - lb) * 10 ^ i)"
    by (auto simp: weighted_fl_def violation_fl_def split: option.splits)
  have "rnd 0 \<le> rnd (max lb x - lb)"
    by (rule monoD [OF assms(1)]) simp
  then have "0 \<le> rnd (max lb x - lb) * 10 ^ i"
    using assms(2) by simp
  then have "rnd 0 \<le> rnd (rnd (max lb x - lb) * 10 ^ i)"
    by (rule monoD [OF assms(1)])
  then show ?thesis using assms(2) w by simp
qed

lemma weighted_fl_zero:
  assumes "rnd 0 = 0" "limits cfg (''lower_bound_'' @ key) = Some lb" "a key = Some x" "x \<le> lb"
  shows "weighted_fl rnd cfg a i key = Inr 0"
  using assms by (simp add: weighted_fl_def violation_fl_def max_absorb1)

lemma weighted_fl_rounded:
  assumes "\<And>x. rnd (rnd x) = rnd x" "weighted_fl rnd cfg a i key = Inr w"
  shows "rnd w = w"
  using assms by (auto simp: weighted_fl_def split: sum.splits)

lemma rnd_add_ge:
  fixes rnd :: "real \<Rightarrow> real"
  assumes "mono rnd" "rnd x = x" "0 \<le> y"
  shows "x \<le> rnd (x + y)"
proof -
  from assms(3) have "x \<le> x + y" by simp
  then have "rnd x \<le> rnd (x + y)" by (rule monoD [OF assms(1)])
  then show ?thesis using assms(2) by simp
qed

text \<open>
  Claim C4, amended. The modifier is a weighted sum, so a drawdown violation dominates only
  by its weight, and only as far as the computed summands say. For every rounding that is
  monotone, maps \<open>0\<close> to \<open>0\<close> and returns representable values: a record \<open>b\<close> that
  violates at most the loss/profit-ratio bound has as modifier exactly its computed
  loss/profit summand \<^verbatim>\<open>(max(lb, lpr) - lb) * 10**2\<close>; the modifier of any record \<open>a\<close> is
  at least its computed drawdown summand \<^verbatim>\<open>(max(lb, dd) - lb) * 10**4\<close>; so the modifier
  of \<open>a\<close> is strictly larger whenever its drawdown summand is strictly larger than the
  loss/profit summand of \<open>b\<close>, and not for every positive margin.
\<close>

theorem modifier_priority:
  assumes rnd: "mono rnd" "rnd 0 = 0" "\<And>x. rnd (rnd x) = rnd x"
      and ma: "calc_modifier_fl rnd cfg a = Inr ma"
      and mb: "calc_modifier_fl rnd cfg b = Inr mb"
      and lim: "limits cfg ''lower_bound_drawdown_worst'' = Some lb4"
               "limits cfg ''lower_bound_equity_balance_diff_mean'' = Some lb3"
      and b: "b ''drawdown_worst'' = Some dd_b" "dd_b \<le> lb4"
             "b ''equity_balance_diff_mean'' = Some em_b" "em_b \<le> lb3"
      and wa: "weighted_fl rnd cfg a 4 ''drawdown_worst'' = Inr wa"
      and wb: "weighted_fl rnd cfg b 2 ''loss_profit_ratio'' = Inr wb"
  shows "mb = wb \<and> wa \<le> ma \<and> (wb < wa \<longrightarrow> mb < ma)"
proof -
  have z4: "weighted_fl rnd cfg b 4 ''drawdown_worst'' = Inr 0"
    using rnd(2) lim(1) b(1,2) by (intro weighted_fl_zero) simp_all
  have z3: "weighted_fl rnd cfg b 3 ''equity_balance_diff_mean'' = Inr 0"
    using rnd(2) lim(2) b(3,4) by (intro weighted_fl_zero) simp_all
  have rwb: "rnd wb = wb"
    using rnd(3) wb by (rule weighted_fl_rounded)
  from mb have "mb = rnd (rnd (rnd (0 + 0) + 0) + wb)"
    by (simp add: calc_modifier_fl_eq z4 z3 wb)
  then have 1: "mb = wb"
    using rnd(2) rwb by simp
  from ma wa obtain w3 w2 where
      w3: "weighted_fl rnd cfg a 3 ''equity_balance_diff_mean'' = Inr w3"
      and w2: "weighted_fl rnd cfg a 2 ''loss_profit_ratio'' = Inr w2"
      and maeq: "ma = rnd (rnd (rnd (0 + wa) + w3) + w2)"
    by (auto simp: calc_modifier_fl_eq split: sum.splits)
  have nn: "0 \<le> w3" "0 \<le> w2"
    using rnd(1,2) w3 w2 by (auto intro: weighted_fl_nonneg)
  have rwa: "rnd wa = wa"
    using rnd(3) wa by (rule weighted_fl_rounded)
  have s1: "wa \<le> rnd (wa + w3)"
    using rnd(1) rwa nn(1) by (rule rnd_add_ge)
  have s2: "rnd (wa + w3) \<le> rnd (rnd (wa + w3) + w2)"
    using rnd(1) rnd(3) nn(2) by (rule rnd_add_ge)
  from s1 s2 have 2: "wa \<le> ma"
    by (simp add: maeq rwa)
  from 1 2 show ?thesis by auto
qed

text \<open>
  The amended statement at the bounds \<open>1/4\<close>, \<open>1/8\<close>, \<open>1/2\<close>, with rounding down to
  a multiple of \<open>1/64\<close>: a drawdown of \<open>1/2\<close> (summand and modifier \<open>2500\<close>) against
  a loss/profit ratio of \<open>3/2\<close> (summand and modifier \<open>100\<close>).
\<close>

theorem modifier_priority_witness:
  "calc_modifier_fl (\<lambda>x. of_int \<lfloor>x * 64\<rfloor> / 64) config0 (stats (1/2) (1/8) (1/2) 1 3 4) = Inr 2500 \<and>
   calc_modifier_fl (\<lambda>x. of_int \<lfloor>x * 64\<rfloor> / 64) config0 (stats (1/4) (1/8) (3/2) 1 3 4) = Inr 100 \<and>
   (100 :: real) < 2500"
proof -
  let ?rnd = "\<lambda>x::real. of_int \<lfloor>x * 64\<rfloor> / (64::real)"
  have m: "mono ?rnd"
    by (intro monoI divide_right_mono) (simp_all add: floor_mono)
  have z: "?rnd 0 = 0" by simp
  have i: "?rnd (?rnd x) = ?rnd x" for x by simp
  have l: "limits config0 ''lower_bound_drawdown_worst'' = Some (1/4)"
          "limits config0 ''lower_bound_equity_balance_diff_mean'' = Some (1/8)"
    by (simp_all add: config0_def limits0_def)
  have wa: "weighted_fl ?rnd config0 (stats (1/2) (1/8) (1/2) 1 3 4) 4 ''drawdown_worst'' = Inr 2500"
    by (simp add: weighted_fl_def violation_fl_def config0_def limits0_def stats_def)
  have wb: "weighted_fl ?rnd config0 (stats (1/4) (1/8) (3/2) 1 3 4) 2 ''loss_profit_ratio'' = Inr 100"
    by (simp add: weighted_fl_def violation_fl_def config0_def limits0_def stats_def)
  have w3: "weighted_fl ?rnd config0 (stats dd (1/8) lpr 1 3 4) 3 ''equity_balance_diff_mean'' = Inr 0" for dd lpr
    by (simp add: weighted_fl_def violation_fl_def config0_def limits0_def stats_def)
  have w2: "weighted_fl ?rnd config0 (stats (1/2) (1/8) (1/2) 1 3 4) 2 ''loss_profit_ratio'' = Inr 0"
    by (simp add: weighted_fl_def violation_fl_def config0_def limits0_def stats_def)
  have w4: "weighted_fl ?rnd config0 (stats (1/4) (1/8) (3/2) 1 3 4) 4 ''drawdown_worst'' = Inr 0"
    by (simp add: weighted_fl_def violation_fl_def config0_def limits0_def stats_def)
  have ma: "calc_modifier_fl ?rnd config0 (stats (1/2) (1/8) (1/2) 1 3 4) = Inr 2500"
    by (simp add: calc_modifier_fl_eq wa w3 w2)
  have mb: "calc_modifier_fl ?rnd config0 (stats (1/4) (1/8) (3/2) 1 3 4) = Inr 100"
    by (simp add: calc_modifier_fl_eq wb w3 w4)
  have "(100 :: real) = 100 \<and> (2500 :: real) \<le> 2500 \<and> ((100 :: real) < 2500 \<longrightarrow> (100 :: real) < 2500)"
    by (rule modifier_priority [OF m z i ma mb l stats_lookup(1) _ stats_lookup(2) _ wa wb]) simp_all
  then have "(100 :: real) < 2500" by simp
  with ma mb show ?thesis by simp
qed

subsection \<open>The generation budget\<close>

lemma generations_eq: "generations g = nat g"
  by (simp add: generations_def)

lemma quotient_below_next:
  fixes iters :: int and n :: nat
  assumes n: "0 < n" and i: "0 \<le> iters"
  shows "real_of_int iters / real n \<le> of_int (iters div int n) + 1 - 1 / real n"
proof -
  have "iters = (iters div int n) * int n + iters mod int n" by simp
  moreover have "iters mod int n \<le> int n - 1"
    using n by (simp add: zle_diff1_eq)
  ultimately have "iters \<le> (iters div int n) * int n + (int n - 1)" by linarith
  then have "real_of_int iters \<le> real_of_int ((iters div int n) * int n + (int n - 1))"
    by (rule of_int_le_iff [THEN iffD2])
  then have "real_of_int iters \<le> of_int (iters div int n) * real n + real n - 1"
    by simp
  also have "\<dots> = (of_int (iters div int n) + 1 - 1 / real n) * real n"
    using n by (simp add: algebra_simps)
  finally show ?thesis
    using n by (simp only: pos_divide_le_eq of_nat_0_less_iff)
qed

lemma ngen_nonneg:
  fixes rnd :: "real \<Rightarrow> real"
  assumes mono: "mono rnd"
      and ints: "\<And>k::int. \<bar>k\<bar> \<le> 2 ^ 53 \<Longrightarrow> rnd (of_int k) = of_int k"
      and err: "\<bar>rnd (real_of_int iters / real n) - real_of_int iters / real n\<bar>
                  \<le> \<bar>real_of_int iters / real n\<bar> / 2 ^ 53"
      and n: "0 < n" and i: "0 \<le> iters" "iters < 2 ^ 53"
  shows "py_int (rnd (real_of_int iters / real n)) = iters div int n"
proof -
  define q where "q = real_of_int iters / real n"
  define k where "k = iters div int n"
  have k0: "0 \<le> k"
    unfolding k_def using i(1) n by (simp add: pos_imp_zdiv_nonneg_iff)
  have kle: "k \<le> iters"
  proof -
    have "0 \<le> iters mod int n" using n by simp
    moreover have "iters = k * int n + iters mod int n" by (simp add: k_def)
    moreover have "k \<le> k * int n" using k0 n by (simp add: mult_le_cancel_left1)
    ultimately show ?thesis by linarith
  qed
  have "\<lfloor>real_of_int iters / real_of_int (int n)\<rfloor> = k"
    unfolding k_def by (rule floor_divide_of_int_eq)
  then have fl: "\<lfloor>q\<rfloor> = k" by (simp add: q_def)
  have kq: "of_int k \<le> q"
    using of_int_floor_le [of q] by (simp only: fl)
  have "rnd (of_int k) = of_int k"
    using k0 kle i(2) by (intro ints) simp
  moreover have "rnd (of_int k) \<le> rnd q"
    using kq by (rule monoD [OF mono])
  ultimately have lo: "of_int k \<le> rnd q" by simp
  have q0: "0 \<le> q" unfolding q_def using i(1) by simp
  have small: "q / 2 ^ 53 < 1 / real n"
  proof -
    have "real_of_int iters < real_of_int (2 ^ 53)"
      using i(2) by (simp only: of_int_less_iff)
    then have a: "real_of_int iters / 2 ^ 53 < 1" by simp
    have "real_of_int iters / 2 ^ 53 / real n < 1 / real n"
      by (rule divide_strict_right_mono [OF a]) (use n in simp)
    moreover have "q / 2 ^ 53 = real_of_int iters / 2 ^ 53 / real n"
      unfolding q_def by (simp only: divide_divide_eq_left mult.commute)
    ultimately show ?thesis by (simp only:)
  qed
  have "\<bar>rnd q - q\<bar> \<le> \<bar>q\<bar> / 2 ^ 53"
    using err by (simp only: q_def)
  moreover have "\<bar>q\<bar> = q" using q0 by (rule abs_of_nonneg)
  moreover have "rnd q - q \<le> \<bar>rnd q - q\<bar>" by (rule abs_ge_self)
  ultimately have up: "rnd q \<le> q + q / 2 ^ 53" by linarith
  have below: "q \<le> of_int k + 1 - 1 / real n"
    unfolding q_def k_def by (rule quotient_below_next [OF n i(1)])
  from up small below have hi: "rnd q < of_int k + 1" by linarith
  from lo k0 have "0 \<le> rnd q" by (meson of_int_0_le_iff order_trans)
  moreover from lo hi have "\<lfloor>rnd q\<rfloor> = k" by (simp add: floor_unique)
  ultimately show ?thesis by (simp add: py_int_def q_def k_def)
qed

lemma ngen_negative:
  fixes rnd :: "real \<Rightarrow> real"
  assumes mono: "mono rnd" and z: "rnd 0 = 0" and n: "0 < n" and i: "iters < 0"
  shows "py_int (rnd (real_of_int iters / real n)) \<le> 0"
proof -
  have "real_of_int iters / real n \<le> 0" using i n by (simp add: divide_nonpos_pos)
  then have "rnd (real_of_int iters / real n) \<le> rnd 0" by (rule monoD [OF mono])
  then have le: "rnd (real_of_int iters / real n) \<le> 0" using z by simp
  show ?thesis
  proof (cases "0 \<le> rnd (real_of_int iters / real n)")
    case True
    with le have "rnd (real_of_int iters / real n) = 0" by simp
    then show ?thesis by (simp add: py_int_def)
  next
    case False
    then show ?thesis using le by (simp add: py_int_def ceiling_le_zero)
  qed
qed

text \<open>
  Claim C5, as stated, fails: the budget is the truncated quotient, not the ceiling. With
  \<^verbatim>\<open>iters = 10\<close> and a population of \<open>4\<close> the quotient \<open>2.5\<close> is a double, so the
  division is exact; the driver is given \<^verbatim>\<open>ngen = 2\<close> and runs \<open>2\<close> generations, where
  the ceiling is \<open>3\<close>.
\<close>

theorem ngen_ceiling_counterexample:
  "ngen (\<lambda>x. x) 10 4 = Inr 2 \<and> generations 2 = 2 \<and> \<lceil>(10 :: real) / 4\<rceil> = 3 \<and>
   generations 2 \<noteq> nat \<lceil>(10 :: real) / 4\<rceil>"
proof -
  have "\<lfloor>(5 :: real) / 2\<rfloor> = 2" "\<lceil>(5 :: real) / 2\<rceil> = 3"
    by (simp_all add: floor_unique ceiling_unique)
  then show ?thesis by (simp add: ngen_def py_int_def generations_eq)
qed

text \<open>
  Claim C5, amended. For an iteration budget below \<open>2^53\<close> and a non-empty population,
  the driver is given \<^verbatim>\<open>ngen = max(1, iters // len(population))\<close>, the quotient rounded
  down and at least \<open>1\<close>, and runs that many generations; the number is computed once,
  before the call. The hypotheses on \<open>rnd\<close> are facts of IEEE round-to-nearest: it is
  monotone, it is exact on the integers up to \<open>2^53\<close>, and the relative error of the
  quotient is at most \<open>2^-53\<close>.
\<close>

theorem ngen_truncates:
  fixes rnd :: "real \<Rightarrow> real"
  assumes "mono rnd"
      and "\<And>k::int. \<bar>k\<bar> \<le> 2 ^ 53 \<Longrightarrow> rnd (of_int k) = of_int k"
      and "\<bar>rnd (real_of_int iters / real n) - real_of_int iters / real n\<bar>
             \<le> \<bar>real_of_int iters / real n\<bar> / 2 ^ 53"
      and "0 < n" and "iters < 2 ^ 53"
  shows "ngen rnd iters n = Inr (max 1 (iters div int n)) \<and>
         generations (max 1 (iters div int n)) = nat (max 1 (iters div int n))"
proof (cases "0 \<le> iters")
  case True
  with assms have "py_int (rnd (real_of_int iters / real n)) = iters div int n"
    by (intro ngen_nonneg) simp_all
  with assms(4) show ?thesis by (simp add: ngen_def generations_eq)
next
  case False
  have "rnd 0 = 0" using assms(2) [of 0] by simp
  with False assms have "py_int (rnd (real_of_int iters / real n)) \<le> 0"
    by (intro ngen_negative) simp_all
  moreover from False assms(4) have "iters div int n < 0"
    by (simp add: div_neg_pos_less0)
  ultimately show ?thesis using assms(4) by (simp add: ngen_def generations_eq)
qed

text \<open>The amended statement at the budgets \<open>10\<close>, \<open>0\<close> and \<open>1000\<close>.\<close>

theorem ngen_truncates_witness:
  "ngen (\<lambda>x. x) 10 4 = Inr 2 \<and> ngen (\<lambda>x. x) 0 4 = Inr 1 \<and> ngen (\<lambda>x. x) 1000 100 = Inr 10"
proof -
  have m: "mono (\<lambda>x::real. x)" by (simp add: mono_def)
  have "ngen (\<lambda>x. x) 10 4 = Inr (max 1 (10 div int 4))"
       "ngen (\<lambda>x. x) 0 4 = Inr (max 1 (0 div int 4))"
       "ngen (\<lambda>x. x) 1000 100 = Inr (max 1 (1000 div int 100))"
    using ngen_truncates [OF m, of 10 4] ngen_truncates [OF m, of 0 4]
          ngen_truncates [OF m, of 1000 100] by simp_all
  then show ?thesis by simp
qed

subsection \<open>The initial population\<close>

lemma clamp_individual_ok:
  "length s \<le> length bounds \<Longrightarrow> clamp_individual bounds s = Inr (adjusted bounds s)"
  by (simp add: clamp_individual_def)

lemma adjusted_nth:
  "z < length s \<Longrightarrow> adjusted bounds s ! z = max (min (s ! z) (snd (bounds ! z))) (fst (bounds ! z))"
  by (simp add: adjusted_def nth_enumerate_eq)

lemma adjusted_length: "length (adjusted bounds s) = length s"
  by (simp add: adjusted_def)

lemma adjusted_in_bounds:
  assumes "z < length s" "fst (bounds ! z) \<le> snd (bounds ! z)"
  shows "fst (bounds ! z) \<le> adjusted bounds s ! z \<and> adjusted bounds s ! z \<le> snd (bounds ! z)"
  using assms by (simp add: adjusted_nth)

lemma seed_loop_ok:
  assumes "i + length seeds \<le> length population"
      and "\<forall>s \<in> set seeds. length s \<le> length bounds"
  shows "seed_loop bounds seeds i population =
           Inr (take i population @ map (adjusted bounds) seeds @ drop (i + length seeds) population)"
  using assms
proof (induction seeds arbitrary: i population)
  case Nil
  then show ?case by simp
next
  case (Cons s seeds)
  let ?p = "population[i := adjusted bounds s]"
  from Cons.prems have i: "i < length population" by simp
  from Cons.prems have "seed_loop bounds seeds (Suc i) ?p =
      Inr (take (Suc i) ?p @ map (adjusted bounds) seeds @ drop (Suc i + length seeds) ?p)"
    by (intro Cons.IH) simp_all
  moreover have "take (Suc i) ?p = take i population @ [adjusted bounds s]"
    using i by (simp add: take_Suc_conv_app_nth)
  moreover have "drop (Suc i + length seeds) ?p = drop (i + length (s # seeds)) population"
    by simp
  ultimately show ?case
    using Cons.prems i by (simp add: clamp_individual_ok)
qed

text \<open>
  When there are no more seeds than the configured population size, the seeds, clamped,
  replace the first individuals and the population size stays.
\<close>

lemma seeds_overwrite_prefix:
  assumes "int (length starting_individuals) \<le> population_size"
      and "\<forall>s \<in> set starting_individuals. length s \<le> length bounds"
  shows "initial_population create_individual bounds population_size starting_individuals =
           Inr (population_size,
                map (adjusted bounds) starting_individuals @
                map create_individual [length starting_individuals..<nat population_size])"
proof -
  let ?n = "length starting_individuals"
  let ?pop = "map create_individual [0..<nat population_size]"
  from assms(1) have le: "?n \<le> nat population_size" by simp
  have "seed_loop bounds starting_individuals 0 ?pop =
          Inr (take 0 ?pop @ map (adjusted bounds) starting_individuals @ drop (0 + ?n) ?pop)"
    using assms(2) le by (intro seed_loop_ok) simp_all
  then have "seed_loop bounds starting_individuals 0 ?pop =
          Inr (map (adjusted bounds) starting_individuals @ map create_individual [?n..<nat population_size])"
    by (simp add: drop_map)
  with assms(1) show ?thesis
    by (cases "starting_individuals = []") (simp_all add: initial_population_def)
qed

text \<open>
  Claim C7. When the seeds outnumber the configured population size and no seed has more
  values than there are bounds, the population size becomes the number of seeds and the
  initial population is exactly the seeds in their order, each value \<open>x\<close> of dimension
  \<open>z\<close> replaced by \<^verbatim>\<open>max(min(x, high), low)\<close>, which lies within the bounds of \<open>z\<close>
  whenever \<open>low \<le> high\<close>.
\<close>

theorem seeds_fill_population:
  assumes "population_size < int (length starting_individuals)"
      and "\<forall>s \<in> set starting_individuals. length s \<le> length bounds"
  shows "initial_population create_individual bounds population_size starting_individuals =
           Inr (int (length starting_individuals), map (adjusted bounds) starting_individuals) \<and>
         (\<forall>s \<in> set starting_individuals. \<forall>z < length s.
            adjusted bounds s ! z = max (min (s ! z) (snd (bounds ! z))) (fst (bounds ! z)) \<and>
            (fst (bounds ! z) \<le> snd (bounds ! z) \<longrightarrow>
               fst (bounds ! z) \<le> adjusted bounds s ! z \<and> adjusted bounds s ! z \<le> snd (bounds ! z)))"
proof -
  let ?n = "length starting_individuals"
  let ?pop = "map create_individual [0..<?n]"
  have "seed_loop bounds starting_individuals 0 ?pop =
          Inr (take 0 ?pop @ map (adjusted bounds) starting_individuals @ drop (0 + ?n) ?pop)"
    using assms(2) by (intro seed_loop_ok) simp_all
  then have "seed_loop bounds starting_individuals 0 ?pop =
          Inr (map (adjusted bounds) starting_individuals)"
    by simp
  with assms(1) have "initial_population create_individual bounds population_size starting_individuals =
           Inr (int (length starting_individuals), map (adjusted bounds) starting_individuals)"
    by (cases "starting_individuals = []") (simp_all add: initial_population_def)
  then show ?thesis
    by (simp add: adjusted_nth)
qed

text \<open>
  The theorem at two seeds for a configured population size of \<open>1\<close>, with bounds
  \<open>(0, 0)\<close> and \<open>(1, 5)\<close>: the seed \<open>[7, 9]\<close> enters the population as \<open>[0, 5]\<close>.
\<close>

theorem seeds_fill_population_witness:
  "initial_population (\<lambda>k. [real k, 2]) [(0, 0), (1, 5)] 1 [[0, 3], [7, 9]] =
     Inr (2, [[0, 3], [0, 5]])"
proof -
  have "adjusted [(0, 0), (1, 5)] [0, 3] = [0, 3]" "adjusted [(0, 0), (1, 5)] [7, 9] = [0, 5]"
    by (simp_all add: adjusted_def)
  then show ?thesis
    using seeds_fill_population [of 1 "[[0, 3], [7, 9]]" "[(0, 0), (1, 5)]" "\<lambda>k. [real k, 2]",
        THEN conjunct1]
    by simp
qed

subsection \<open>Fixed dimensions under mutation and crossover\<close>

lemma equal_bounds_mask_length:
  "length low = length up \<Longrightarrow> length (equal_bounds_mask low up) = length low"
  by (simp add: equal_bounds_mask_def)

lemma equal_bounds_mask_nth:
  "length low = length up \<Longrightarrow> i < length low \<Longrightarrow>
     equal_bounds_mask low up ! i = (low ! i = up ! i)"
  by (simp add: equal_bounds_mask_def)

lemma reset_loop_ok:
  assumes "k + length m \<le> length individual"
  shows "\<exists>r. reset_loop low (enumerate k m) individual = Inr r \<and>
             length r = length individual \<and>
             (\<forall>i < length individual.
                r ! i = (if k \<le> i \<and> i < k + length m \<and> m ! (i - k) then low ! i
                         else individual ! i))"
  using assms
proof (induction m arbitrary: k individual)
  case Nil
  then show ?case by simp
next
  case (Cons e m)
  let ?ind = "if e then individual[k := low ! k] else individual"
  from Cons.prems have k: "k < length individual" by simp
  have step: "reset_loop low (enumerate k (e # m)) individual =
                reset_loop low (enumerate (Suc k) m) ?ind"
    using k by simp
  from Cons.prems have "Suc k + length m \<le> length ?ind" by simp
  from Cons.IH [OF this] obtain r where
      r: "reset_loop low (enumerate (Suc k) m) ?ind = Inr r"
      "length r = length ?ind"
      "\<forall>i < length ?ind.
         r ! i = (if Suc k \<le> i \<and> i < Suc k + length m \<and> m ! (i - Suc k) then low ! i
                  else ?ind ! i)"
    by blast
  have "r ! i = (if k \<le> i \<and> i < k + length (e # m) \<and> (e # m) ! (i - k) then low ! i
                 else individual ! i)" if "i < length individual" for i
  proof (cases "i = k")
    case True
    with r(3) that show ?thesis by simp
  next
    case False
    with r(3) that show ?thesis
      by (cases "k \<le> i") (auto simp: nth_Cons' Suc_diff_Suc not_less_eq_eq)
  qed
  with r(1,2) step show ?case by simp
qed

lemma mutation_wrapper_fixed:
  assumes "length low = length up"
      and "mutPolynomialBounded individual
             (temp_low (equal_bounds_mask low up) low) (temp_up (equal_bounds_mask low up) up) =
           Inr individual'"
      and "length low \<le> length individual'"
  shows "\<exists>r. mutPolynomialBoundedWrapper mutPolynomialBounded individual low up = Inr r \<and>
             length r = length individual' \<and>
             (\<forall>i < length low. low ! i = up ! i \<longrightarrow> r ! i = low ! i) \<and>
             (\<forall>i < length individual'. \<not> (i < length low \<and> low ! i = up ! i) \<longrightarrow>
                r ! i = individual' ! i)"
proof -
  let ?m = "equal_bounds_mask low up"
  have "0 + length ?m \<le> length individual'"
    using assms(1,3) by (simp add: equal_bounds_mask_length)
  from reset_loop_ok [OF this, of low] obtain r where
      r: "reset_loop low (enumerate 0 ?m) individual' = Inr r"
      "length r = length individual'"
      "\<forall>i < length individual'.
         r ! i = (if 0 \<le> i \<and> i < 0 + length ?m \<and> ?m ! (i - 0) then low ! i
                  else individual' ! i)"
    by blast
  have w: "mutPolynomialBoundedWrapper mutPolynomialBounded individual low up = Inr r"
    using assms(1,2) r(1) by (simp add: mutPolynomialBoundedWrapper_def)
  have fixed: "r ! i = low ! i" if "i < length low" "low ! i = up ! i" for i
    using r(3) that assms(1,3) by (simp add: equal_bounds_mask_length equal_bounds_mask_nth)
  have free: "r ! i = individual' ! i"
    if "i < length individual'" "\<not> (i < length low \<and> low ! i = up ! i)" for i
    using r(3) that assms(1) by (auto simp: equal_bounds_mask_length equal_bounds_mask_nth)
  from w r(2) fixed free show ?thesis by blast
qed


lemma reset_loop2_eq:
  "reset_loop low es ind1 = Inr r1 \<Longrightarrow> reset_loop low es ind2 = Inr r2 \<Longrightarrow>
     reset_loop2 low es ind1 ind2 = Inr (r1, r2)"
proof (induction es arbitrary: ind1 ind2)
  case Nil
  then show ?case by simp
next
  case (Cons p es)
  obtain i e where p: "p = (i, e)" by (cases p)
  from Cons.prems show ?case
    unfolding p by (auto split: if_splits intro: Cons.IH)
qed

lemma crossover_wrapper_fixed:
  assumes "length low = length up"
      and "cxSimulatedBinaryBounded ind1 ind2
             (temp_low (equal_bounds_mask low up) low) (temp_up (equal_bounds_mask low up) up) =
           Inr (ind1', ind2')"
      and "length low \<le> length ind1'" and "length low \<le> length ind2'"
  shows "\<exists>r1 r2. cxSimulatedBinaryBoundedWrapper cxSimulatedBinaryBounded ind1 ind2 low up =
               Inr (r1, r2) \<and>
             length r1 = length ind1' \<and> length r2 = length ind2' \<and>
             (\<forall>i < length low. low ! i = up ! i \<longrightarrow> r1 ! i = low ! i \<and> r2 ! i = low ! i) \<and>
             (\<forall>i < length ind1'. \<not> (i < length low \<and> low ! i = up ! i) \<longrightarrow>
                r1 ! i = ind1' ! i) \<and>
             (\<forall>i < length ind2'. \<not> (i < length low \<and> low ! i = up ! i) \<longrightarrow>
                r2 ! i = ind2' ! i)"
proof -
  let ?m = "equal_bounds_mask low up"
  have len: "0 + length ?m \<le> length ind1'" "0 + length ?m \<le> length ind2'"
    using assms(1,3,4) by (simp_all add: equal_bounds_mask_length)
  from reset_loop_ok [OF len(1), of low] obtain r1 where
      r1: "reset_loop low (enumerate 0 ?m) ind1' = Inr r1"
      "length r1 = length ind1'"
      "\<forall>i < length ind1'.
         r1 ! i = (if 0 \<le> i \<and> i < 0 + length ?m \<and> ?m ! (i - 0) then low ! i else ind1' ! i)"
    by blast
  from reset_loop_ok [OF len(2), of low] obtain r2 where
      r2: "reset_loop low (enumerate 0 ?m) ind2' = Inr r2"
      "length r2 = length ind2'"
      "\<forall>i < length ind2'.
         r2 ! i = (if 0 \<le> i \<and> i < 0 + length ?m \<and> ?m ! (i - 0) then low ! i else ind2' ! i)"
    by blast
  have "reset_loop2 low (enumerate 0 ?m) ind1' ind2' = Inr (r1, r2)"
    using r1(1) r2(1) by (rule reset_loop2_eq)
  then have w: "cxSimulatedBinaryBoundedWrapper cxSimulatedBinaryBounded ind1 ind2 low up =
                  Inr (r1, r2)"
    using assms(1,2) by (simp add: cxSimulatedBinaryBoundedWrapper_def)
  have fixed: "r1 ! i = low ! i \<and> r2 ! i = low ! i" if "i < length low" "low ! i = up ! i" for i
    using r1(3) r2(3) that assms(1,3,4)
    by (simp add: equal_bounds_mask_length equal_bounds_mask_nth)
  have free1: "r1 ! i = ind1' ! i"
    if "i < length ind1'" "\<not> (i < length low \<and> low ! i = up ! i)" for i
    using r1(3) that assms(1) by (auto simp: equal_bounds_mask_length equal_bounds_mask_nth)
  have free2: "r2 ! i = ind2' ! i"
    if "i < length ind2'" "\<not> (i < length low \<and> low ! i = up ! i)" for i
    using r2(3) that assms(1) by (auto simp: equal_bounds_mask_length equal_bounds_mask_nth)
  from w r1(2) r2(2) fixed free1 free2 show ?thesis by blast
qed

text \<open>
  Claim C3. Let \<^verbatim>\<open>low\<close> and \<^verbatim>\<open>up\<close> have the same length. Whatever the bounded operator
  of the library returns (it is universally quantified, and so are its random draws), as
  long as it returns individuals that have a value for every bound: the mutation wrapper
  returns one offspring and the crossover wrapper two, of unchanged lengths; in every
  dimension whose lower and upper bound coincide each offspring holds exactly that
  bound; and in every other dimension each offspring holds what the operator computed, so
  only dimensions of non-zero width are perturbed.
\<close>

theorem fixed_dimensions_preserved:
  assumes "length low = length up"
  shows "(\<forall>mutPolynomialBounded individual individual'.
            mutPolynomialBounded individual
               (temp_low (equal_bounds_mask low up) low) (temp_up (equal_bounds_mask low up) up) =
             Inr individual' \<and> length low \<le> length individual' \<longrightarrow>
            (\<exists>r. mutPolynomialBoundedWrapper mutPolynomialBounded individual low up = Inr r \<and>
               length r = length individual' \<and>
               (\<forall>i < length low. low ! i = up ! i \<longrightarrow> r ! i = low ! i) \<and>
               (\<forall>i < length individual'. \<not> (i < length low \<and> low ! i = up ! i) \<longrightarrow>
                  r ! i = individual' ! i))) \<and>
         (\<forall>cxSimulatedBinaryBounded ind1 ind2 ind1' ind2'.
            cxSimulatedBinaryBounded ind1 ind2
               (temp_low (equal_bounds_mask low up) low) (temp_up (equal_bounds_mask low up) up) =
             Inr (ind1', ind2') \<and> length low \<le> length ind1' \<and> length low \<le> length ind2' \<longrightarrow>
            (\<exists>r1 r2. cxSimulatedBinaryBoundedWrapper cxSimulatedBinaryBounded ind1 ind2 low up =
                  Inr (r1, r2) \<and>
               length r1 = length ind1' \<and> length r2 = length ind2' \<and>
               (\<forall>i < length low. low ! i = up ! i \<longrightarrow> r1 ! i = low ! i \<and> r2 ! i = low ! i) \<and>
               (\<forall>i < length ind1'. \<not> (i < length low \<and> low ! i = up ! i) \<longrightarrow>
                  r1 ! i = ind1' ! i) \<and>
               (\<forall>i < length ind2'. \<not> (i < length low \<and> low ! i = up ! i) \<longrightarrow>
                  r2 ! i = ind2' ! i)))"
  using assms by (intro conjI allI impI mutation_wrapper_fixed crossover_wrapper_fixed) simp_all

text \<open>
  The theorem at bounds \<open>[0, 0]\<close> and \<open>[1, 5]\<close>, for an operator that adds \<open>1\<close> to every
  value and a crossover that also swaps the parents: the first dimension comes back as
  \<open>0\<close>, the second as computed.
\<close>

theorem fixed_dimensions_preserved_witness:
  "mutPolynomialBoundedWrapper shift_mutation [0, 3] [0, 1] [0, 5] = Inr [0, 4] \<and>
   cxSimulatedBinaryBoundedWrapper swap_crossover [0, 3] [0, 4] [0, 1] [0, 5] = Inr ([0, 5], [0, 4])"
proof -
  have l: "length [0::real, 1] = length [0::real, 5]" by simp
  have m: "mutPolynomialBoundedWrapper shift_mutation [0, 3] [0, 1] [0, 5] = Inr [0, 4]"
    by (simp add: mutPolynomialBoundedWrapper_def shift_mutation_def equal_bounds_mask_def)
  have c: "cxSimulatedBinaryBoundedWrapper swap_crossover [0, 3] [0, 4] [0, 1] [0, 5] =
             Inr ([0, 5], [0, 4])"
    by (simp add: cxSimulatedBinaryBoundedWrapper_def swap_crossover_def equal_bounds_mask_def)
  have pre: "shift_mutation [0, 3]
               (temp_low (equal_bounds_mask [0, 1] [0, 5]) [0, 1])
               (temp_up (equal_bounds_mask [0, 1] [0, 5]) [0, 5]) = Inr [1, 4] \<and>
             length [0::real, 1] \<le> length [1::real, 4]"
    by (simp add: shift_mutation_def)
  from fixed_dimensions_preserved [OF l, THEN conjunct1, rule_format,
         of shift_mutation "[0, 3]" "[1, 4]", OF pre]
  obtain r where "mutPolynomialBoundedWrapper shift_mutation [0, 3] [0, 1] [0, 5] = Inr r"
    and "\<forall>i < length [0::real, 1]. [0::real, 1] ! i = [0::real, 5] ! i \<longrightarrow> r ! i = [0::real, 1] ! i"
    by blast
  with m have m0: "[0::real, 4] ! 0 = [0::real, 1] ! 0" by auto
  have pre2: "swap_crossover [0, 3] [0, 4]
               (temp_low (equal_bounds_mask [0, 1] [0, 5]) [0, 1])
               (temp_up (equal_bounds_mask [0, 1] [0, 5]) [0, 5]) = Inr ([1, 5], [1, 4]) \<and>
             length [0::real, 1] \<le> length [1::real, 5] \<and> length [0::real, 1] \<le> length [1::real, 4]"
    by (simp add: swap_crossover_def)
  from fixed_dimensions_preserved [OF l, THEN conjunct2, rule_format,
         of swap_crossover "[0, 3]" "[0, 4]" "[1, 5]" "[1, 4]", OF pre2]
  obtain r1 r2 where "cxSimulatedBinaryBoundedWrapper swap_crossover [0, 3] [0, 4] [0, 1] [0, 5] =
      Inr (r1, r2)"
    and "\<forall>i < length [0::real, 1]. [0::real, 1] ! i = [0::real, 5] ! i \<longrightarrow>
           r1 ! i = [0::real, 1] ! i \<and> r2 ! i = [0::real, 1] ! i"
    by blast
  with c have c0: "[0::real, 5] ! 0 = [0::real, 1] ! 0 \<and> [0::real, 4] ! 0 = [0::real, 1] ! 0" by auto
  from m c m0 c0 show ?thesis by simp
qed

subsection \<open>The genome codec\<close>

lemma fmupd_over:
  "a \<noteq> b \<Longrightarrow> fmupd a x (fmupd b y (fmupd a z m)) = fmupd b y (fmupd a x m)"
  by (rule fmap_ext) auto

lemma sample_encode: "config_to_individual (sample_config l s v) = Inr [Atom l, Atom s]"
  by (simp add: config_to_individual_def sample_config_def sorted_list_of_fset.rep_eq)

lemma sample_decode:
  "individual_to_config v7 [Atom l, Atom s] (Some (sample_config l' s' v)) = Inr (sample_config l s v)"
  by (simp add: individual_to_config_def sample_config_def sorted_list_of_fset.rep_eq fmupd_over)

lemma sample_live: "getitem (sample_config l s v) ''live'' = Inr (Atom v)"
  by (simp add: sample_config_def)

text \<open>
  Claim C2, as stated: a configuration is decoded from its own encoding to itself whenever
  its parameter set is the template's. The encoding holds the values of the two sides
  only, and everything else of the result is the template's: the configuration with
  parameters 3 and 4 and \<open>live\<close> section 1 has the parameter set of the template with
  parameters 1 and 2 and \<open>live\<close> section 0, and is decoded to a configuration whose
  \<open>live\<close> section is 0.
\<close>

theorem codec_roundtrip_counterexample:
  "config_to_individual (sample_config 3 4 1) = Inr [Atom 3, Atom 4] \<and>
   individual_to_config (Atom 0) [Atom 3, Atom 4] (Some (sample_config 1 2 0)) =
     Inr (sample_config 3 4 0) \<and>
   sample_config 3 4 0 \<noteq> sample_config 3 4 1"
proof -
  have "getitem (sample_config 3 4 0) ''live'' \<noteq> getitem (sample_config 3 4 1) ''live''"
    by (simp add: sample_live)
  then have "sample_config 3 4 0 \<noteq> sample_config 3 4 1" by auto
  then show ?thesis by (simp add: sample_encode sample_decode)
qed

lemma write_all_simps:
  "write_all [] vals d = d"
  "write_all (k # keys) (v # vals) d = write_all keys vals (fmupd k v d)"
  by (simp_all add: write_all_def)

lemma write_keys_spec:
  assumes "fmlookup r ''bot'' = Some (Dict b)" "fmlookup b pside = Some (Dict d)"
      and "i + length keys \<le> length individual"
  shows "write_keys pside keys individual i (Dict r) =
           Inr (Dict (fmupd ''bot'' (Dict (fmupd pside (Dict (write_all keys (drop i individual) d)) b)) r),
                i + length keys)"
  using assms
proof (induction keys arbitrary: i r b d)
  case Nil
  have "fmupd pside (Dict d) b = b" using Nil.prems(2) by (intro fmap_ext) auto
  moreover have "fmupd ''bot'' (Dict b) r = r" using Nil.prems(1) by (intro fmap_ext) auto
  ultimately show ?case by (simp add: write_all_simps)
next
  case (Cons key keys)
  let ?d = "fmupd key (individual ! i) d"
  let ?b = "fmupd pside (Dict ?d) b"
  let ?r = "fmupd ''bot'' (Dict ?b) r"
  from Cons.prems have i: "i < length individual" by simp
  have "write_keys pside keys individual (Suc i) (Dict ?r) =
          Inr (Dict (fmupd ''bot'' (Dict (fmupd pside (Dict (write_all keys (drop (Suc i) individual) ?d)) ?b)) ?r),
               Suc i + length keys)"
    using Cons.prems by (intro Cons.IH) simp_all
  moreover have "drop i individual = individual ! i # drop (Suc i) individual"
    using i by (simp add: Cons_nth_drop_Suc)
  ultimately show ?case
    using Cons.prems i by (simp add: write_all_simps)
qed

lemma write_all_lookup:
  "fmlookup (write_all keys (map f keys @ rest) d) k =
     (if k \<in> set keys then Some (f k) else fmlookup d k)"
  by (induction keys arbitrary: d) (auto simp: write_all_simps)

lemma write_all_values:
  assumes "fmdom c = fmdom t" "fmdom d |\<subseteq>| fmdom t"
  shows "write_all (sorted_list_of_fset (fmdom t))
           (map (\<lambda>k. the (fmlookup c k)) (sorted_list_of_fset (fmdom c)) @ rest) d = c"
proof (rule fmap_ext)
  fix k
  show "fmlookup (write_all (sorted_list_of_fset (fmdom t))
           (map (\<lambda>k. the (fmlookup c k)) (sorted_list_of_fset (fmdom c)) @ rest) d) k = fmlookup c k"
  proof (cases "k |\<in>| fmdom t")
    case True
    with assms(1) have "fmlookup c k \<noteq> None" by (metis fmdom_notI)
    with True show ?thesis
      by (auto simp: assms(1) write_all_lookup)
  next
    case False
    with assms have "fmlookup c k = None" "fmlookup d k = None"
      by (auto simp: fmdom_notD)
    with False show ?thesis
      by (simp add: assms(1) write_all_lookup)
  qed
qed


lemma fmdrop_eq_lookup:
  "fmdrop a m = fmdrop a m' \<Longrightarrow> x \<noteq> a \<Longrightarrow> fmlookup m x = fmlookup m' x"
  by (metis fmlookup_drop)

lemma sorted_values_length:
  "length (map (\<lambda>k. the (fmlookup c k)) (sorted_list_of_fset (fmdom c))) =
     length (sorted_list_of_fset (fmdom c))"
  by simp

text \<open>
  Claim C2, amended: when both sides of the configuration and the short side of the
  template have the parameter names of the template's long side, the configuration is
  encoded, and its encoding is decoded against the template to the template with the two
  sides of the configuration in place of its own. So the result is the configuration
  itself if the configuration and the template agree outside the two sides.
\<close>

theorem codec_roundtrip:
  assumes t: "fmlookup t_root ''bot'' = Some (Dict t_bot)" "fmlookup t_bot ''long'' = Some (Dict t_long)"
             "fmlookup t_bot ''short'' = Some (Dict t_short)"
      and c: "fmlookup c_root ''bot'' = Some (Dict c_bot)" "fmlookup c_bot ''long'' = Some (Dict c_long)"
             "fmlookup c_bot ''short'' = Some (Dict c_short)"
      and p: "fmdom c_long = fmdom t_long" "fmdom c_short = fmdom t_long" "fmdom t_short = fmdom t_long"
  shows "\<exists>individual.
           config_to_individual (Dict c_root) = Inr individual \<and>
           individual_to_config v7 individual (Some (Dict t_root)) =
             Inr (Dict (fmupd ''bot''
                    (Dict (fmupd ''short'' (Dict c_short) (fmupd ''long'' (Dict c_long) t_bot))) t_root)) \<and>
           (fmdrop ''bot'' c_root = fmdrop ''bot'' t_root \<and>
            fmdrop ''long'' (fmdrop ''short'' c_bot) = fmdrop ''long'' (fmdrop ''short'' t_bot) \<longrightarrow>
              individual_to_config v7 individual (Some (Dict t_root)) = Inr (Dict c_root))"
proof -
  define keys where "keys = sorted_list_of_fset (fmdom t_long)"
  define vl where "vl = map (\<lambda>k. the (fmlookup c_long k)) (sorted_list_of_fset (fmdom c_long))"
  define vs where "vs = map (\<lambda>k. the (fmlookup c_short k)) (sorted_list_of_fset (fmdom c_short))"
  have len: "length vl = length keys" "length vs = length keys"
    by (simp_all add: vl_def vs_def keys_def p)
  have enc: "config_to_individual (Dict c_root) = Inr (vl @ vs)"
    using c by (simp add: config_to_individual_def vl_def vs_def)
  have wl: "write_all keys (vl @ vs) t_long = c_long"
    unfolding keys_def vl_def by (rule write_all_values [OF p(1)]) simp
  have "write_all keys (vs @ []) t_short = c_short"
    unfolding keys_def vs_def by (rule write_all_values [OF p(2)]) (simp add: p(3))
  then have ws: "write_all keys (drop (length keys) (vl @ vs)) t_short = c_short"
    using len(1) by simp
  let ?b1 = "fmupd ''long'' (Dict c_long) t_bot"
  let ?r1 = "fmupd ''bot'' (Dict ?b1) t_root"
  have s1: "write_keys ''long'' keys (vl @ vs) 0 (Dict t_root) = Inr (Dict ?r1, length keys)"
    using write_keys_spec [OF t(1) t(2), of 0 keys "vl @ vs"] len by (simp add: wl)
  have "write_keys ''short'' keys (vl @ vs) (length keys) (Dict ?r1) =
          Inr (Dict (fmupd ''bot'' (Dict (fmupd ''short''
                 (Dict (write_all keys (drop (length keys) (vl @ vs)) t_short)) ?b1)) ?r1),
               length keys + length keys)"
    using t(3) len by (intro write_keys_spec) simp_all
  then have s2: "write_keys ''short'' keys (vl @ vs) (length keys) (Dict ?r1) =
          Inr (Dict (fmupd ''bot'' (Dict (fmupd ''short'' (Dict c_short) ?b1)) t_root),
               length keys + length keys)"
    unfolding ws by simp
  have dec: "individual_to_config v7 (vl @ vs) (Some (Dict t_root)) =
               Inr (Dict (fmupd ''bot'' (Dict (fmupd ''short'' (Dict c_short) ?b1)) t_root))"
    using t(1,2) by (simp add: individual_to_config_def keys_def [symmetric] s1 s2)
  have same: "Dict (fmupd ''bot'' (Dict (fmupd ''short'' (Dict c_short) ?b1)) t_root) = Dict c_root"
    if r: "fmdrop ''bot'' c_root = fmdrop ''bot'' t_root"
    and b: "fmdrop ''long'' (fmdrop ''short'' c_bot) = fmdrop ''long'' (fmdrop ''short'' t_bot)"
  proof -
    have "fmlookup (fmupd ''short'' (Dict c_short) ?b1) x = fmlookup c_bot x" for x
    proof -
      have "fmlookup (fmdrop ''long'' (fmdrop ''short'' c_bot)) x =
            fmlookup (fmdrop ''long'' (fmdrop ''short'' t_bot)) x"
        by (simp only: b)
      then show ?thesis using c(2,3) by (auto split: if_splits)
    qed
    then have c_bot: "fmupd ''short'' (Dict c_short) ?b1 = c_bot" by (rule fmap_ext)
    have "fmlookup (fmupd ''bot'' (Dict c_bot) t_root) x = fmlookup c_root x" for x
      using fmdrop_eq_lookup [OF r, of x] c(1) by auto
    then have "fmupd ''bot'' (Dict c_bot) t_root = c_root" by (rule fmap_ext)
    then show ?thesis by (simp add: c_bot)
  qed
  from enc dec same show ?thesis by auto
qed

text \<open>The amended claim at the sample configurations.\<close>

theorem codec_roundtrip_witness:
  "config_to_individual (sample_config 3 4 0) = Inr [Atom 3, Atom 4] \<and>
   individual_to_config (Atom 0) [Atom 3, Atom 4] (Some (sample_config 1 2 0)) =
     Inr (sample_config 3 4 0)"
proof -
  let ?long = "\<lambda>l::int. fmupd ''a'' (Atom l) fmempty"
  let ?bot = "\<lambda>l s::int. fmupd ''long'' (Dict (?long l)) (fmupd ''short'' (Dict (?long s)) fmempty)"
  let ?root = "\<lambda>l s v::int. fmupd ''bot'' (Dict (?bot l s)) (fmupd ''live'' (Atom v) fmempty)"
  have "\<exists>individual.
           config_to_individual (Dict (?root 3 4 0)) = Inr individual \<and>
           individual_to_config (Atom 0) individual (Some (Dict (?root 1 2 0))) =
             Inr (Dict (fmupd ''bot''
                    (Dict (fmupd ''short'' (Dict (?long 4)) (fmupd ''long'' (Dict (?long 3)) (?bot 1 2))))
                    (?root 1 2 0))) \<and>
           (fmdrop ''bot'' (?root 3 4 0) = fmdrop ''bot'' (?root 1 2 0) \<and>
            fmdrop ''long'' (fmdrop ''short'' (?bot 3 4)) = fmdrop ''long'' (fmdrop ''short'' (?bot 1 2)) \<longrightarrow>
              individual_to_config (Atom 0) individual (Some (Dict (?root 1 2 0))) =
                Inr (Dict (?root 3 4 0)))"
    by (rule codec_roundtrip [where t_long = "?long 1" and t_short = "?long 2"
          and c_long = "?long 3" and c_short = "?long 4"]) simp_all
  then obtain individual where
      e: "config_to_individual (sample_config 3 4 0) = Inr individual"
      and d: "fmdrop ''bot'' (?root 3 4 0) = fmdrop ''bot'' (?root 1 2 0) \<and>
            fmdrop ''long'' (fmdrop ''short'' (?bot 3 4)) = fmdrop ''long'' (fmdrop ''short'' (?bot 1 2)) \<longrightarrow>
              individual_to_config (Atom 0) individual (Some (sample_config 1 2 0)) =
                Inr (sample_config 3 4 0)"
    unfolding sample_config_def by blast
  have "fmdrop ''bot'' (?root 3 4 0) = fmdrop ''bot'' (?root 1 2 0)"
    by (rule fmap_ext) auto
  moreover have "fmdrop ''long'' (fmdrop ''short'' (?bot 3 4)) = fmdrop ''long'' (fmdrop ''short'' (?bot 1 2))"
    by (rule fmap_ext) auto
  ultimately have "individual_to_config (Atom 0) individual (Some (sample_config 1 2 0)) =
                Inr (sample_config 3 4 0)"
    using d by blast
  with e show ?thesis by (simp add: sample_encode)
qed
subsection \<open>Deduplication of the seed configurations\<close>

lemma update_set: "set (AList.update k v al) \<subseteq> insert (k, v) (set al)"
  by (induction al) auto

lemma update_keys: "fst ` set (AList.update k v al) = insert k (fst ` set al)"
  using dom_update [of k v al] by simp

lemma hashed_update:
  "hashed calc_hash inds \<Longrightarrow> calc_hash individual = Inr h \<Longrightarrow>
     hashed calc_hash (AList.update h individual inds)"
  unfolding hashed_def using update_set [of h individual inds] by auto

lemma configs_loop_inv:
  "distinct (map fst inds) \<Longrightarrow> hashed calc_hash inds \<Longrightarrow>
     distinct (map fst (configs_loop format_config calc_hash cfgs inds)) \<and>
     hashed calc_hash (configs_loop format_config calc_hash cfgs inds)"
proof (induction cfgs arbitrary: inds)
  case Nil
  then show ?case by simp
next
  case (Cons cfg cfgs)
  show ?case
  proof (cases "format_config cfg")
    case (Inl e)
    then show ?thesis using Cons by simp
  next
    case (Inr formatted)
    show ?thesis
    proof (cases "config_to_individual formatted")
      case (Inl e)
      then show ?thesis using Cons Inr by simp
    next
      case ind: (Inr individual)
      show ?thesis
      proof (cases "calc_hash individual")
        case (Inl e)
        then show ?thesis using Cons Inr ind by simp
      next
        case h: (Inr h)
        have "distinct (map fst (AList.update h individual inds))"
          using Cons.prems(1) by (simp add: distinct_update)
        moreover have "hashed calc_hash (AList.update h individual inds)"
          using Cons.prems(2) h by (rule hashed_update)
        ultimately show ?thesis using Cons.IH Inr ind h by simp
      qed
    qed
  qed
qed

lemma configs_loop_keeps:
  "h \<in> fst ` set inds \<Longrightarrow> h \<in> fst ` set (configs_loop format_config calc_hash cfgs inds)"
proof (induction cfgs arbitrary: inds)
  case Nil
  then show ?case by simp
next
  case (Cons cfg cfgs)
  have "h \<in> fst ` set (AList.update h' individual inds)" for h' individual
    using Cons.prems by (simp add: update_keys)
  then show ?case
    using Cons by (auto split: sum.splits simp del: image_iff)
qed

lemma configs_loop_loaded:
  assumes "cfg \<in> set cfgs" "format_config cfg = Inr formatted"
      and "config_to_individual formatted = Inr individual" "calc_hash individual = Inr h"
  shows "h \<in> fst ` set (configs_loop format_config calc_hash cfgs inds)"
  using assms(1)
proof (induction cfgs arbitrary: inds)
  case Nil
  then show ?case by simp
next
  case (Cons c cfgs)
  show ?case
  proof (cases "c = cfg")
    case True
    have "h \<in> fst ` set (AList.update h individual inds)" by (simp add: update_keys)
    then have "h \<in> fst ` set (configs_loop format_config calc_hash cfgs (AList.update h individual inds))"
      by (rule configs_loop_keeps)
    then show ?thesis using True assms(2-4) by simp
  next
    case False
    with Cons.prems have "cfg \<in> set cfgs" by simp
    then have "h \<in> fst ` set (configs_loop format_config calc_hash cfgs inds')" for inds'
      by (rule Cons.IH)
    then show ?thesis by (simp split: sum.splits)
  qed
qed

lemma hashed_map:
  "hashed calc_hash inds \<Longrightarrow> map calc_hash (map snd inds) = map (\<lambda>p. Inr (fst p)) inds"
  unfolding hashed_def by (induction inds) auto

lemma distinct_once:
  "distinct xs \<Longrightarrow> x \<in> set xs \<Longrightarrow> length (filter (\<lambda>y. y = x) xs) = 1"
  by (induction xs) (auto simp: filter_empty_conv)

text \<open>
  Claim C8: the individuals returned by \<^verbatim>\<open>configs_to_individuals\<close> have pairwise
  different hashes, and a hash under which a seed configuration of the list is loaded is
  the hash of exactly one of them. So seed configurations whose genomes have the same
  hash contribute one individual, however many they are. The hash is a function of the
  genome; a seed configuration that fails to be formatted, encoded or hashed is skipped.
\<close>

theorem seeds_deduplicated:
  fixes calc_hash :: "'v pyv list \<Rightarrow> error + 'h"
  shows "distinct (map calc_hash (configs_to_individuals format_config calc_hash cfgs)) \<and>
   (\<forall>cfg \<in> set cfgs. \<forall>formatted individual h.
      format_config cfg = Inr formatted \<longrightarrow>
      config_to_individual formatted = Inr individual \<longrightarrow>
      calc_hash individual = Inr h \<longrightarrow>
        length (filter (\<lambda>x. calc_hash x = Inr h)
                  (configs_to_individuals format_config calc_hash cfgs)) = 1)"
proof -
  define inds where "inds = configs_loop format_config calc_hash cfgs []"
  have inv: "distinct (map fst inds)" "hashed calc_hash inds"
    using configs_loop_inv [of "[]" calc_hash format_config cfgs]
    by (simp_all add: inds_def hashed_def)
  have hashes: "map calc_hash (configs_to_individuals format_config calc_hash cfgs) =
                  map (\<lambda>p. Inr (fst p)) inds"
    using hashed_map [OF inv(2)] by (simp add: configs_to_individuals_def inds_def)
  have "map (\<lambda>p. Inr (fst p) :: error + 'h) inds = map Inr (map fst inds)" by simp
  then have d: "distinct (map (\<lambda>p. Inr (fst p) :: error + 'h) inds)"
    using inv(1) by (simp only: distinct_map) (auto simp: inj_on_def)
  have once: "length (filter (\<lambda>x. calc_hash x = Inr h)
                 (configs_to_individuals format_config calc_hash cfgs)) = 1"
    if "cfg \<in> set cfgs" "format_config cfg = Inr formatted"
       "config_to_individual formatted = Inr individual" "calc_hash individual = Inr h"
    for cfg formatted individual h
  proof -
    have "h \<in> fst ` set inds"
      unfolding inds_def using that by (rule configs_loop_loaded)
    then have "Inr h \<in> set (map calc_hash (configs_to_individuals format_config calc_hash cfgs))"
      unfolding hashes by auto
    with d have "length (filter (\<lambda>y. y = Inr h)
                   (map calc_hash (configs_to_individuals format_config calc_hash cfgs))) = 1"
      unfolding hashes by (intro distinct_once)
    then show ?thesis by (simp add: filter_map comp_def)
  qed
  from d once show ?thesis unfolding hashes [symmetric] by blast
qed

text \<open>Two different sample configurations with the genome 3, 4 give one individual.\<close>

theorem seeds_deduplicated_witness:
  "sample_config 3 4 0 \<noteq> sample_config 3 4 1 \<and>
   configs_to_individuals sample_format_config sample_calc_hash [sample_config 3 4 0, sample_config 3 4 1] =
     [[Atom 3, Atom 4]] \<and>
   length (filter (\<lambda>x. sample_calc_hash x = Inr [Atom 3, Atom 4])
             (configs_to_individuals sample_format_config sample_calc_hash
                [sample_config 3 4 0, sample_config 3 4 1])) = 1"
proof -
  have "getitem (sample_config 3 4 0) ''live'' \<noteq> getitem (sample_config 3 4 1) ''live''"
    by (simp add: sample_live)
  then have ne: "sample_config 3 4 0 \<noteq> sample_config 3 4 1" by auto
  have r: "configs_to_individuals sample_format_config sample_calc_hash [sample_config 3 4 0, sample_config 3 4 1] =
     [[Atom 3, Atom 4]]"
    by (simp add: configs_to_individuals_def sample_format_config_def sample_calc_hash_def sample_encode)
  have "length (filter (\<lambda>x. sample_calc_hash x = Inr [Atom 3, Atom 4])
             (configs_to_individuals sample_format_config sample_calc_hash
                [sample_config 3 4 0, sample_config 3 4 1])) = 1"
    using seeds_deduplicated [of sample_calc_hash sample_format_config "[sample_config 3 4 0, sample_config 3 4 1]",
        THEN conjunct2, rule_format, of "sample_config 3 4 1" "sample_config 3 4 1" "[Atom 3, Atom 4]" "[Atom 3, Atom 4]"]
    by (simp add: sample_format_config_def sample_calc_hash_def sample_encode)
  with ne r show ?thesis by simp
qed
subsection \<open>Decoding leaves its template as it is\<close>

lemma same_below_refl: "same_below L h h"
  by (simp add: same_below_def)

lemma same_below_trans: "same_below L h h1 \<Longrightarrow> same_below L h1 h2 \<Longrightarrow> same_below L h h2"
  by (auto simp: same_below_def)

lemma in_copy_mono: "in_copy L h v \<Longrightarrow> next_addr h \<le> next_addr h' \<Longrightarrow> in_copy L h' v"
  by (auto simp: in_copy_def split: ref_val.splits)

lemma copied_new_dict:
  assumes "copied L memo h" "new_dict h = (y, h1)"
  shows "copied L (memo(a \<mapsto> y)) h1" "same_below L h h1" "L \<le> y" "y < next_addr h1"
proof -
  from assms(2) have y: "y = next_addr h"
    and h1: "h1 = \<lparr>cells = (cells h)(next_addr h := fmempty), next_addr = Suc (next_addr h)\<rparr>"
    by (auto simp: new_dict_def)
  from assms(1) have L: "L \<le> next_addr h" by (simp add: copied_def)
  show "L \<le> y" "y < next_addr h1" using L by (simp_all add: y h1)
  show "same_below L h h1" using L by (simp add: same_below_def h1)
  have cell: "in_copy L h1 v"
    if "L \<le> b" "b < next_addr h1" "fmlookup (cells h1 b) k = Some v" for b k v
  proof (cases "b = next_addr h")
    case True
    with that show ?thesis by (simp add: h1)
  next
    case False
    with that have "b < next_addr h" "fmlookup (cells h b) k = Some v" by (simp_all add: h1)
    with assms(1) that(1) have "in_copy L h v" unfolding copied_def by blast
    then show ?thesis by (rule in_copy_mono) (simp add: h1)
  qed
  have "L \<le> z \<and> z < next_addr h1" if "(memo(a \<mapsto> y)) a' = Some z" for a' z
    using that assms(1) L unfolding copied_def by (auto simp: y h1 less_Suc_eq split: if_splits)
  with cell L show "copied L (memo(a \<mapsto> y)) h1"
    unfolding copied_def by (simp add: h1)
qed

lemma copied_setitem:
  assumes "copied L memo h" "in_copy L h (Ref y)" "in_copy L h v"
      and "setitem_heap (Ref y) k v h = Inr h'"
  shows "copied L memo h'" "same_below L h h'"
proof -
  from assms(4) have h': "h' = h\<lparr>cells := (cells h)(y := fmupd k v (cells h y))\<rparr>" by simp
  from assms(2) have y: "L \<le> y" "y < next_addr h" by (simp_all add: in_copy_def)
  show "same_below L h h'" using y by (simp add: same_below_def h')
  have n: "next_addr h' = next_addr h" by (simp add: h')
  have cell: "in_copy L h' w"
    if "L \<le> b" "b < next_addr h'" "fmlookup (cells h' b) k' = Some w" for b k' w
  proof (cases "b = y \<and> k' = k")
    case True
    with that have "w = v" by (simp add: h')
    with assms(3) show ?thesis by (simp add: in_copy_def n split: ref_val.splits)
  next
    case False
    with that have "b < next_addr h" "fmlookup (cells h b) k' = Some w"
      by (auto simp: h' split: if_splits)
    with assms(1) that(1) have "in_copy L h w" unfolding copied_def by blast
    then show ?thesis by (simp add: in_copy_def n split: ref_val.splits)
  qed
  from assms(1) cell show "copied L memo h'"
    unfolding copied_def n by blast
qed

lemma getitem_in_copy:
  assumes "copied L memo h" "in_copy L h v" "getitem_heap h v k = Inr v'"
  shows "in_copy L h v'"
proof (cases v)
  case (Imm x)
  with assms(3) show ?thesis by simp
next
  case (Ref a)
  with assms(3) have "fmlookup (cells h a) k = Some v'" by (simp split: option.splits)
  moreover from assms(2) Ref have "L \<le> a" "a < next_addr h" by (simp_all add: in_copy_def)
  ultimately show ?thesis using assms(1) unfolding copied_def by blast
qed

lemma deepcopy_frame:
  "copied L memo h \<Longrightarrow> deepcopy depth v memo h = (r, memo', h') \<Longrightarrow>
     copied L memo' h' \<and> same_below L h h' \<and> (\<forall>v'. r = Inr v' \<longrightarrow> in_copy L h' v')"
  "copied L memo h \<Longrightarrow> in_copy L h (Ref y) \<Longrightarrow> copy_items depth y kvs memo h = (e, memo', h') \<Longrightarrow>
     copied L memo' h' \<and> same_below L h h'"
proof (induction depth v memo h and depth y kvs memo h arbitrary: r memo' h' and e memo' h'
       rule: deepcopy_copy_items.induct)
  case (1 x memo h)
  then show ?case by (auto simp: same_below_refl)
next
  case (2 depth x memo h)
  then show ?case by (auto simp: same_below_refl in_copy_def)
next
  case (3 depth a memo h)
  show ?case
  proof (cases "memo a")
    case (Some y)
    with "3.prems" have "r = Inr (Ref y)" "memo' = memo" "h' = h" by simp_all
    moreover from "3.prems"(1) Some have "in_copy L h (Ref y)"
      by (simp add: copied_def in_copy_def)
    ultimately show ?thesis using "3.prems"(1) by (simp add: same_below_refl)
  next
    case None
    obtain y h1 where nd: "new_dict h = (y, h1)" by (cases "new_dict h")
    obtain e m2 h2 where ci: "copy_items depth y (items (cells h a)) (memo(a \<mapsto> y)) h1 = (e, m2, h2)"
      by (cases "copy_items depth y (items (cells h a)) (memo(a \<mapsto> y)) h1")
    have a: "copied L (memo(a \<mapsto> y)) h1" "same_below L h h1" "L \<le> y" "y < next_addr h1"
      using copied_new_dict [OF "3.prems"(1) nd] by simp_all
    have y: "in_copy L h1 (Ref y)" using a(3,4) by (simp add: in_copy_def)
    have ih: "copied L m2 h2 \<and> same_below L h1 h2"
      using "3.IH" [OF None nd [symmetric] a(1) y ci] .
    from "3.prems"(2) None nd ci have res: "memo' = m2" "h' = h2" "r = Inr v' \<Longrightarrow> v' = Ref y" for v'
      by (auto split: option.splits)
    from ih have "next_addr h1 \<le> next_addr h2" by (simp add: same_below_def)
    with y have "in_copy L h2 (Ref y)" by (rule in_copy_mono)
    with ih a(2) res show ?thesis by (auto intro: same_below_trans)
  qed
next
  case (4 depth y memo h)
  then show ?case by (auto simp: same_below_refl)
next
  case (5 depth y key v rest memo h)
  obtain r1 m1 h1 where dc: "deepcopy depth v memo h = (r1, m1, h1)"
    by (cases "deepcopy depth v memo h")
  note ih1 = "5.IH"(1) [OF "5.prems"(1) dc]
  show ?case
  proof (cases r1)
    case (Inl err)
    with "5.prems"(3) dc have "memo' = m1" "h' = h1" by simp_all
    with ih1 show ?thesis by simp
  next
    case (Inr v')
    with ih1 have v': "in_copy L h1 v'" by simp
    from ih1 have "next_addr h \<le> next_addr h1" by (simp add: same_below_def)
    with "5.prems"(2) have y1: "in_copy L h1 (Ref y)" by (rule in_copy_mono)
    obtain h2 where si: "setitem_heap (Ref y) key v' h1 = Inr h2" by simp
    note s = copied_setitem [OF conjunct1 [OF ih1] y1 v' si]
    from s(2) have "next_addr h1 \<le> next_addr h2" by (simp add: same_below_def)
    with y1 have y2: "in_copy L h2 (Ref y)" by (rule in_copy_mono)
    from "5.prems"(3) dc Inr si have ci: "copy_items depth y rest m1 h2 = (e, memo', h')"
      by simp
    have "copied L memo' h' \<and> same_below L h2 h'"
      using "5.IH"(2) [OF dc [symmetric] Inr _ si s(1) y2 ci] by simp
    with ih1 s(2) show ?thesis by (auto intro: same_below_trans)
  qed
qed

lemma write_keys_frame:
  "copied L memo h \<Longrightarrow> in_copy L h config \<Longrightarrow>
   write_keys_heap pside keys individual i config h = (r, h') \<Longrightarrow>
     copied L memo h' \<and> same_below L h h'"
proof (induction keys arbitrary: i h)
  case Nil
  then show ?case by (simp add: same_below_refl)
next
  case (Cons key keys)
  show ?case
  proof (cases "i < length individual")
    case False
    with Cons.prems show ?thesis by (simp add: same_below_refl)
  next
    case i: True
    show ?thesis
    proof (cases "getitem_heap h config ''bot''")
      case (Inl e)
      with Cons.prems i show ?thesis by (simp add: same_below_refl)
    next
      case b: (Inr bot_d)
      have bot_d: "in_copy L h bot_d" using Cons.prems(1,2) b by (rule getitem_in_copy)
      show ?thesis
      proof (cases "getitem_heap h bot_d pside")
        case (Inl e)
        with Cons.prems i b show ?thesis by (simp add: same_below_refl)
      next
        case s: (Inr side)
        have side: "in_copy L h side" using Cons.prems(1) bot_d s by (rule getitem_in_copy)
        show ?thesis
        proof (cases side)
          case (Imm x)
          with Cons.prems i b s show ?thesis by (simp add: same_below_refl)
        next
          case (Ref a)
          obtain h1 where si: "setitem_heap (Ref a) key (Imm (individual ! i)) h = Inr h1" by simp
          have c: "copied L memo h1" "same_below L h h1"
            using copied_setitem [OF Cons.prems(1) side [unfolded Ref] _ si]
            by (simp_all add: in_copy_def)
          from c(2) have "next_addr h \<le> next_addr h1" by (simp add: same_below_def)
          with Cons.prems(2) have cfg: "in_copy L h1 config" by (rule in_copy_mono)
          from Cons.prems(3) i b s Ref si
          have "write_keys_heap pside keys individual (Suc i) config h1 = (r, h')" by simp
          from Cons.IH [OF c(1) cfg this] c(2) show ?thesis by (auto intro: same_below_trans)
        qed
      qed
    qed
  qed
qed

lemma deepcopy_root:
  "deepcopy depth template Map.empty h = (Inr config, memo, h1) \<Longrightarrow>
     config = template \<and> (\<exists>x. template = Imm x) \<or> config = Ref (next_addr h)"
  by (cases depth; cases template)
     (auto simp: new_dict_def split: prod.splits option.splits)

text \<open>
  Claim C9: whatever \<^verbatim>\<open>individual_to_config\<close> does with a genome and a template,
  whether it returns or raises, every object that existed before the call has the entries
  it had, so no field of the template has been changed; new objects may have been
  created. A configuration that is returned is a new object.
\<close>

theorem decode_preserves_template:
  assumes "individual_to_config_heap get_template_live_config depth individual (Some template) h = (r, h')"
  shows "next_addr h \<le> next_addr h' \<and> (\<forall>a < next_addr h. cells h' a = cells h a) \<and>
         (\<forall>config. r = Inr config \<longrightarrow> config = Ref (next_addr h))"
proof -
  define L where "L = next_addr h"
  have c0: "copied L Map.empty h" by (simp add: copied_def L_def)
  obtain r1 memo h1 where dc: "deepcopy depth template Map.empty h = (r1, memo, h1)"
    by (cases "deepcopy depth template Map.empty h")
  note f1 = deepcopy_frame(1) [OF c0 dc]
  have "same_below L h h' \<and> (\<forall>config. r = Inr config \<longrightarrow> config = Ref (next_addr h))"
  proof (cases r1)
    case (Inl e)
    with assms dc have "h' = h1" "r = Inl e" by (simp_all add: individual_to_config_heap_def)
    with f1 show ?thesis by simp
  next
    case (Inr config)
    with f1 have cfg: "in_copy L h1 config" and c1: "copied L memo h1" by simp_all
    show ?thesis
    proof (cases "getitem_heap h1 config ''bot''")
      case (Inl e)
      with assms dc Inr have "h' = h1" "r = Inl e" by (simp_all add: individual_to_config_heap_def)
      with f1 show ?thesis by simp
    next
      case b: (Inr bot_d)
      from b have "\<not> (\<exists>x. config = Imm x)" by auto
      with deepcopy_root [OF dc [unfolded Inr]] have root: "config = Ref (next_addr h)" by auto
      show ?thesis
      proof (cases "getitem_heap h1 bot_d ''long''")
        case (Inl e)
        with assms dc Inr b have "h' = h1" "r = Inl e"
          by (simp_all add: individual_to_config_heap_def)
        with f1 show ?thesis by simp
      next
        case l: (Inr long_d)
        show ?thesis
        proof (cases "sorted_keys_heap h1 long_d")
          case (Inl e)
          with assms dc Inr b l have "h' = h1" "r = Inl e"
            by (simp_all add: individual_to_config_heap_def)
          with f1 show ?thesis by simp
        next
          case k: (Inr keys)
          obtain r2 h2 where w1: "write_keys_heap ''long'' keys individual 0 config h1 = (r2, h2)"
            by (cases "write_keys_heap ''long'' keys individual 0 config h1")
          note f2 = write_keys_frame [OF c1 cfg w1]
          show ?thesis
          proof (cases r2)
            case (Inl e)
            with assms dc Inr b l k w1 have "h' = h2" "r = Inl e"
              by (simp_all add: individual_to_config_heap_def)
            with f1 f2 show ?thesis by (auto intro: same_below_trans)
          next
            case i1: (Inr i1)
            obtain r3 h3 where w2: "write_keys_heap ''short'' keys individual i1 config h2 = (r3, h3)"
              by (cases "write_keys_heap ''short'' keys individual i1 config h2")
            from f2 have "next_addr h1 \<le> next_addr h2" by (simp add: same_below_def)
            with cfg have "in_copy L h2 config" by (rule in_copy_mono)
            note f3 = write_keys_frame [OF conjunct1 [OF f2] this w2]
            from assms dc Inr b l k w1 i1 w2 have "h' = h3" "r = Inr config \<or> (\<exists>e. r = Inl e)"
              by (auto simp: individual_to_config_heap_def split: sum.splits)
            with f1 f2 f3 root show ?thesis by (auto intro: same_below_trans)
          qed
        qed
      qed
    qed
  qed
  then show ?thesis by (simp add: same_below_def L_def)
qed

lemma sample_decode_heap:
  "fst (individual_to_config_heap sample_get_template 4 [3, 4] (Some (Ref 0)) sample_heap) =
     Inr (Ref 4)"
  "fmlookup (cells (snd (individual_to_config_heap sample_get_template 4 [3, 4] (Some (Ref 0))
      sample_heap)) 6) ''a'' = Some (Imm 3)"
  "fmlookup (cells (snd (individual_to_config_heap sample_get_template 4 [3, 4] (Some (Ref 0))
      sample_heap)) 7) ''a'' = Some (Imm 4)"
  by (simp_all add: individual_to_config_heap_def sample_heap_def items_def new_dict_def
        sorted_list_of_fset.rep_eq eval_nat_numeral)

text \<open>
  At the sample template: the configuration is the new object at address 4, its long
  side holds the value 3 of the genome, and the four objects of the template are as they
  were; the long side of the template still holds 1.
\<close>

theorem decode_preserves_template_witness:
  "fst (individual_to_config_heap sample_get_template 4 [3, 4] (Some (Ref 0)) sample_heap) =
     Inr (Ref 4) \<and>
   fmlookup (cells (snd (individual_to_config_heap sample_get_template 4 [3, 4] (Some (Ref 0))
      sample_heap)) 6) ''a'' = Some (Imm 3) \<and>
   cells (snd (individual_to_config_heap sample_get_template 4 [3, 4] (Some (Ref 0))
      sample_heap)) 0 = cells sample_heap 0 \<and>
   cells (snd (individual_to_config_heap sample_get_template 4 [3, 4] (Some (Ref 0))
      sample_heap)) 1 = cells sample_heap 1 \<and>
   cells (snd (individual_to_config_heap sample_get_template 4 [3, 4] (Some (Ref 0))
      sample_heap)) 2 = cells sample_heap 2 \<and>
   cells (snd (individual_to_config_heap sample_get_template 4 [3, 4] (Some (Ref 0))
      sample_heap)) 3 = cells sample_heap 3 \<and>
   fmlookup (cells sample_heap 2) ''a'' = Some (Imm 1)"
proof -
  define run where
    "run = individual_to_config_heap sample_get_template 4 [3, 4] (Some (Ref 0)) sample_heap"
  have "run = (fst run, snd run)" by simp
  then have "\<forall>a < next_addr sample_heap. cells (snd run) a = cells sample_heap a"
    unfolding run_def by (rule decode_preserves_template [THEN conjunct2, THEN conjunct1])
  moreover have "next_addr sample_heap = 4" by (simp add: sample_heap_def)
  ultimately have "cells (snd run) 0 = cells sample_heap 0" "cells (snd run) 1 = cells sample_heap 1"
    "cells (snd run) 2 = cells sample_heap 2" "cells (snd run) 3 = cells sample_heap 3"
    by simp_all
  moreover have "fmlookup (cells sample_heap 2) ''a'' = Some (Imm 1)"
    by (simp add: sample_heap_def)
  ultimately show ?thesis
    unfolding run_def by (simp add: sample_decode_heap)
qed
subsection \<open>Release of the shared memory\<close>

lemmas segment_defs =
  create_hlcs_def create_preferred_coins_def close_hlcs_def unlink_hlcs_def
  close_preferred_coins_def unlink_preferred_coins_def

text \<open>
  When nothing is raised while the evaluator is constructed or in the \<^verbatim>\<open>finally\<close>
  block, both segments are closed and unlinked once, whether the rest of the
  \<^verbatim>\<open>try\<close> block returns, raises an exception or is interrupted.
\<close>

lemma main_releases_once:
  assumes "fault 303 = None" "\<forall>line \<in> {150..171}. fault line = None"
      and "fault 417 = None" "\<forall>line \<in> {211..214}. fault line = None"
  shows "main fault no_segments =
           (Some SystemExit,
            \<lparr>shared_hlcs = \<lparr>created = True, closes = 1, unlinks = 1\<rparr>,
             shared_preferred_coins = \<lparr>created = True, closes = 1, unlinks = 1\<rparr>\<rparr>)"
proof -
  have init: "Evaluator_init fault no_segments =
                (None, create_preferred_coins (create_hlcs no_segments))"
    using assms(2) by (simp add: Evaluator_init_def)
  have clean: "cleanup fault s =
                 (None, unlink_preferred_coins (close_preferred_coins (unlink_hlcs (close_hlcs s))))"
    for s
    using assms(4) by (simp add: cleanup_def)
  have "main fault no_segments =
          (Some SystemExit,
           unlink_preferred_coins (close_preferred_coins (unlink_hlcs (close_hlcs
             (create_preferred_coins (create_hlcs no_segments))))))"
    using assms(1,3) by (simp add: main_def try_block_def finally_block_def init clean)
  then show ?thesis by (simp add: segment_defs no_segments_def)
qed

text \<open>
  Claim C6 says that the segments are released exactly once also when the run raises an
  error or is interrupted. The evaluator is constructed inside the \<^verbatim>\<open>try\<close> block,
  and the \<^verbatim>\<open>finally\<close> block calls \<^verbatim>\<open>evaluator.cleanup()\<close>: when the construction
  raises, the variable is unbound, the call raises \<open>UnboundLocalError\<close> and no segment
  is released. When the creation of the second segment fails, the first one is left
  neither closed nor unlinked; when the run is interrupted in the last statement of the
  constructor, both are.
\<close>

theorem evaluator_init_failure_leaks:
  "main second_creation_fails no_segments =
     (Some UnboundLocalError,
      \<lparr>shared_hlcs = \<lparr>created = True, closes = 0, unlinks = 0\<rparr>,
       shared_preferred_coins = \<lparr>created = False, closes = 0, unlinks = 0\<rparr>\<rparr>) \<and>
   main interrupted_in_init no_segments =
     (Some UnboundLocalError,
      \<lparr>shared_hlcs = \<lparr>created = True, closes = 0, unlinks = 0\<rparr>,
       shared_preferred_coins = \<lparr>created = True, closes = 0, unlinks = 0\<rparr>\<rparr>)"
  by (simp add: main_def try_block_def finally_block_def Evaluator_init_def
        second_creation_fails_def interrupted_in_init_def segment_defs no_segments_def)

text \<open>A run whose backtests fail releases both segments once.\<close>

lemma backtest_failure_releases:
  "main backtest_fails no_segments =
     (Some SystemExit,
      \<lparr>shared_hlcs = \<lparr>created = True, closes = 1, unlinks = 1\<rparr>,
       shared_preferred_coins = \<lparr>created = True, closes = 1, unlinks = 1\<rparr>\<rparr>)"
  by (rule main_releases_once) (simp_all add: backtest_fails_def)

end
